theory Spec2Isabelle
  imports Complex_Main "HOL-Library.Sublist"
begin

section \<open>JavaScript strings\<close>

text \<open>
  A JavaScript string is modelled as a \<^typ>\<open>string\<close>: a list of code units below 256,
  read as Latin-1. Text outside Latin-1 is outside the model.
\<close>

definition isWhiteSpace :: "char \<Rightarrow> bool" where
  \<comment> \<open>the white space and line terminators that \<open>trim\<close> and \<open>parseFloat\<close> strip\<close>
  "isWhiteSpace c =
     (c = CHR 0x20 \<or> c = CHR 0x09 \<or> c = CHR 0x0A \<or> c = CHR 0x0B \<or> c = CHR 0x0C \<or>
      c = CHR 0x0D \<or> c = CHR 0xA0)"

definition trim :: "string \<Rightarrow> string" where
  "trim s = rev (dropWhile isWhiteSpace (rev (dropWhile isWhiteSpace s)))"

definition lowerChar :: "char \<Rightarrow> char" where
  \<comment> \<open>A-Z and the Latin-1 capitals (0xC0-0xDE but the multiplication sign) move up by 32\<close>
  "lowerChar c =
     (let n = (of_char c :: nat)
      in if (65 \<le> n \<and> n \<le> 90) \<or> (192 \<le> n \<and> n \<le> 222 \<and> n \<noteq> 215)
         then char_of (n + 32) else c)"

definition toLowerCase :: "string \<Rightarrow> string" where
  "toLowerCase s = map lowerChar s"

definition upperChar :: "char \<Rightarrow> char" where
  \<comment> \<open>only ever applied to the first letter of a vocabulary word (a-z)\<close>
  "upperChar c =
     (let n = (of_char c :: nat)
      in if 97 \<le> n \<and> n \<le> 122 then char_of (n - 32) else c)"

definition capitalize :: "string \<Rightarrow> string" where
  \<comment> \<open>\<open>s.charAt(0).toUpperCase() + s.slice(1)\<close>\<close>
  "capitalize s = (case s of [] \<Rightarrow> [] | c # cs \<Rightarrow> upperChar c # cs)"

fun includes_str :: "string \<Rightarrow> string \<Rightarrow> bool" where
  "includes_str [] t = (t = [])"
| "includes_str (c # cs) t = (prefix t (c # cs) \<or> includes_str cs t)"

definition startsWith :: "string \<Rightarrow> string \<Rightarrow> bool" where
  "startsWith s t = prefix t s"

fun join :: "string \<Rightarrow> string list \<Rightarrow> string" where
  "join sep [] = []"
| "join sep [x] = x"
| "join sep (x # y # ys) = x @ sep @ join sep (y # ys)"

definition isDigit :: "char \<Rightarrow> bool" where
  "isDigit c = (48 \<le> (of_char c :: nat) \<and> (of_char c :: nat) \<le> 57)"

definition digitVal :: "char \<Rightarrow> nat" where
  "digitVal c = (of_char c :: nat) - 48"

definition digitsVal :: "string \<Rightarrow> nat" where
  "digitsVal s = foldl (\<lambda>n c. 10 * n + digitVal c) 0 s"

definition digitChar :: "nat \<Rightarrow> char" where
  \<comment> \<open>the character of a decimal digit \<open>d < 10\<close>\<close>
  "digitChar d = ''0123456789'' ! d"

fun natToString :: "nat \<Rightarrow> string" where
  \<comment> \<open>\<open>String(n)\<close> of a non-negative integer below \<open>10^21\<close>\<close>
  "natToString n =
     (if n < 10 then [digitChar n] else natToString (n div 10) @ [digitChar (n mod 10)])"

definition newline :: string where
  "newline = [CHR 0x0A]"

section \<open>Numbers\<close>

text \<open>
  A number is an IEEE 754 double: \<open>Fin x\<close> stands for the finite double whose exact value
  is the real \<open>x\<close>, next to the two infinities and NaN. Every arithmetic operation
  computes the exact result and rounds it to the nearest double, ties to the even
  significand, as the standard prescribes; a result of magnitude \<open>2^1024\<close> or more becomes
  an infinity. The sign of zero is not kept (\<open>-0\<close> and \<open>+0\<close> are both \<open>Fin 0\<close>): the
  program divides only by array lengths and by products of square roots of sums of
  squares, which are never \<open>-0\<close>, and its comparisons and \<open>toFixed\<close> do not tell the two
  zeros apart.
\<close>

datatype jsnum = Fin real | PosInf | NegInf | NaN

definition binade :: "real \<Rightarrow> int" where
  \<comment> \<open>the exponent of the double nearest to \<open>x\<close>; \<open>-1022\<close> for the subnormal range\<close>
  "binade x = max \<lfloor>log 2 \<bar>x\<bar>\<rfloor> (- 1022)"

definition ulp :: "real \<Rightarrow> real" where
  \<comment> \<open>the distance between neighbouring doubles around \<open>x\<close>: 53 significant bits\<close>
  "ulp x = 2 powi (binade x - 52)"

definition roundEven :: "real \<Rightarrow> int" where
  \<comment> \<open>the nearest integer, the even one on a tie\<close>
  "roundEven q =
     (let f = \<lfloor>q\<rfloor>
      in if q - of_int f < 1 / 2 then f
         else if 1 / 2 < q - of_int f then f + 1
         else if even f then f else f + 1)"

definition overflowBound :: real where
  "overflowBound = 2 ^ 1024"

definition round64 :: "real \<Rightarrow> jsnum" where
  \<comment> \<open>the double nearest to the real \<open>x\<close>\<close>
  "round64 x =
     (let y = of_int (roundEven (x / ulp x)) * ulp x
      in if overflowBound \<le> y then PosInf
         else if y \<le> - overflowBound then NegInf
         else Fin y)"

fun js_add :: "jsnum \<Rightarrow> jsnum \<Rightarrow> jsnum" where
  "js_add (Fin x) (Fin y) = round64 (x + y)"
| "js_add NaN _ = NaN"
| "js_add _ NaN = NaN"
| "js_add PosInf NegInf = NaN"
| "js_add NegInf PosInf = NaN"
| "js_add PosInf _ = PosInf"
| "js_add _ PosInf = PosInf"
| "js_add NegInf _ = NegInf"
| "js_add _ NegInf = NegInf"

fun js_neg :: "jsnum \<Rightarrow> jsnum" where
  "js_neg (Fin x) = Fin (- x)"
| "js_neg PosInf = NegInf"
| "js_neg NegInf = PosInf"
| "js_neg NaN = NaN"

definition js_sub :: "jsnum \<Rightarrow> jsnum \<Rightarrow> jsnum" where
  "js_sub x y = js_add x (js_neg y)"

fun js_mul :: "jsnum \<Rightarrow> jsnum \<Rightarrow> jsnum" where
  "js_mul (Fin x) (Fin y) = round64 (x * y)"
| "js_mul NaN _ = NaN"
| "js_mul _ NaN = NaN"
| "js_mul (Fin x) PosInf = (if x = 0 then NaN else if 0 < x then PosInf else NegInf)"
| "js_mul (Fin x) NegInf = (if x = 0 then NaN else if 0 < x then NegInf else PosInf)"
| "js_mul PosInf (Fin y) = (if y = 0 then NaN else if 0 < y then PosInf else NegInf)"
| "js_mul NegInf (Fin y) = (if y = 0 then NaN else if 0 < y then NegInf else PosInf)"
| "js_mul PosInf PosInf = PosInf"
| "js_mul PosInf NegInf = NegInf"
| "js_mul NegInf PosInf = NegInf"
| "js_mul NegInf NegInf = PosInf"

fun js_div :: "jsnum \<Rightarrow> jsnum \<Rightarrow> jsnum" where
  "js_div (Fin x) (Fin y) =
     (if y = 0 then (if x = 0 then NaN else if 0 < x then PosInf else NegInf)
      else round64 (x / y))"
| "js_div NaN _ = NaN"
| "js_div _ NaN = NaN"
| "js_div (Fin x) _ = Fin 0"
| "js_div PosInf (Fin y) = (if 0 \<le> y then PosInf else NegInf)"
| "js_div NegInf (Fin y) = (if 0 \<le> y then NegInf else PosInf)"
| "js_div _ _ = NaN"

fun js_sqrt :: "jsnum \<Rightarrow> jsnum" where
  \<comment> \<open>\<open>Math.sqrt\<close>\<close>
  "js_sqrt (Fin x) = (if x < 0 then NaN else round64 (sqrt x))"
| "js_sqrt PosInf = PosInf"
| "js_sqrt NegInf = NaN"
| "js_sqrt NaN = NaN"

fun js_ge :: "jsnum \<Rightarrow> jsnum \<Rightarrow> bool" where
  \<comment> \<open>\<open>x >= y\<close>: false as soon as one side is NaN\<close>
  "js_ge NaN _ = False"
| "js_ge _ NaN = False"
| "js_ge PosInf _ = True"
| "js_ge _ NegInf = True"
| "js_ge (Fin x) (Fin y) = (y \<le> x)"
| "js_ge _ _ = False"

definition exponentPart :: "string \<Rightarrow> int" where
  \<comment> \<open>the value of a complete ExponentPart at the head of the string, else 0\<close>
  "exponentPart s =
     (case s of
        [] \<Rightarrow> 0
      | c # r \<Rightarrow>
          if c = CHR ''e'' \<or> c = CHR ''E'' then
            (let neg = (r \<noteq> [] \<and> hd r = CHR ''-'');
                 d = (if r \<noteq> [] \<and> (hd r = CHR ''-'' \<or> hd r = CHR ''+'') then tl r else r);
                 ds = takeWhile isDigit d
             in if ds = [] then 0
                else if neg then - int (digitsVal ds) else int (digitsVal ds))
          else 0)"

definition parseFloat :: "string \<Rightarrow> jsnum" where
  \<comment> \<open>the longest prefix of the trimmed string that is a StrDecimalLiteral, as the
     nearest double; NaN if there is none\<close>
  "parseFloat str =
     (let s = dropWhile isWhiteSpace str;
          neg = (s \<noteq> [] \<and> hd s = CHR ''-'');
          u = (if s \<noteq> [] \<and> (hd s = CHR ''-'' \<or> hd s = CHR ''+'') then tl s else s)
      in if prefix ''Infinity'' u then (if neg then NegInf else PosInf)
         else
           (let ip = takeWhile isDigit u;
                r1 = dropWhile isDigit u;
                dot = (r1 \<noteq> [] \<and> hd r1 = CHR ''.'');
                fp = (if dot then takeWhile isDigit (tl r1) else []);
                r2 = (if dot then dropWhile isDigit (tl r1) else r1)
            in if ip = [] \<and> fp = [] then NaN
               else
                 (let e = exponentPart r2;
                      m = real (digitsVal (ip @ fp)) / 10 ^ length fp;
                      v = (if 0 \<le> e then m * 10 ^ nat e else m / 10 ^ nat (- e))
                  in round64 (if neg then - v else v))))"

definition fixed2 :: "real \<Rightarrow> string" where
  \<comment> \<open>the digits of \<open>x.toFixed(2)\<close> for \<open>0 \<le> x < 10^21\<close>: the integer \<open>n\<close> for which
     \<open>n / 100\<close> is nearest to the exact value of \<open>x\<close>, the larger one on a tie\<close>
  "fixed2 x =
     (let n = nat \<lfloor>x * 100 + 1 / 2\<rfloor>
      in natToString (n div 100) @ ''.'' @
         [digitChar ((n div 10) mod 10), digitChar (n mod 10)])"

definition fixedAbs :: "(real \<Rightarrow> string) \<Rightarrow> real \<Rightarrow> string" where
  \<comment> \<open>From \<open>10^21\<close> on \<open>toFixed\<close> hands over to \<open>Number::toString\<close>, which prints the
     shortest digits that round to the double, with an exponent; that printing is the
     engine's and is taken as the parameter \<open>numberToString\<close>.\<close>
  "fixedAbs numberToString x = (if 10 ^ 21 \<le> x then numberToString x else fixed2 x)"

fun toFixed2 :: "(real \<Rightarrow> string) \<Rightarrow> jsnum \<Rightarrow> string" where
  \<comment> \<open>\<open>x.toFixed(2)\<close>\<close>
  "toFixed2 numberToString (Fin x) =
     (if x < 0 then ''-'' @ fixedAbs numberToString (- x) else fixedAbs numberToString x)"
| "toFixed2 numberToString PosInf = ''Infinity''"
| "toFixed2 numberToString NegInf = ''-Infinity''"
| "toFixed2 numberToString NaN = ''NaN''"

fun isNaN :: "jsnum \<Rightarrow> bool" where
  "isNaN NaN = True"
| "isNaN _ = False"

section \<open>The data processor\<close>

text \<open>
  A parsed CSV row is the list of its entries in the order \<open>Object.entries\<close> enumerates
  them; the values are the strings the CSV parser produced.
\<close>

type_synonym row = "(string \<times> string) list"

datatype FileMetadata = PdfFile nat | TextFile

datatype ChunkInfo =
    CsvRow nat row
  | CsvSummary "string list" nat
  | TextPiece "FileMetadata option" nat nat

record TextChunk =
  content :: string
  metadata :: ChunkInfo

datatype error = Error string

subsection \<open>processCSV\<close>

definition rowContent :: "row \<Rightarrow> string" where
  "rowContent r = join '', '' (map (\<lambda>(key, v). key @ '': '' @ v) r)"

definition rowChunks :: "row list \<Rightarrow> TextChunk list" where
  \<comment> \<open>\<open>rows.forEach((row, index) => chunks.push(...))\<close>\<close>
  "rowChunks rows =
     map (\<lambda>(index, r). \<lparr>content = rowContent r, metadata = CsvRow index r\<rparr>)
       (zip [0..<length rows] rows)"

definition summaryContent :: "string list \<Rightarrow> nat \<Rightarrow> string" where
  "summaryContent headers n =
     ''CSV Dataset with columns: '' @ join '', '' headers @ ''. Total rows: '' @ natToString n"

definition processCSV :: "error + row list \<Rightarrow> error + TextChunk list" where
  \<comment> \<open>The argument is what the parser's stream delivered: the rows at \<open>end\<close>, or the
     \<open>error\<close> event that rejects the promise.\<close>
  "processCSV parsed =
     (case parsed of
        Inl e \<Rightarrow> Inl e
      | Inr rows \<Rightarrow>
          Inr (rowChunks rows @
               (case rows of
                  [] \<Rightarrow> []
                | first # _ \<Rightarrow>
                    (let headers = map fst first
                     in [\<lparr>content = summaryContent headers (length rows),
                          metadata = CsvSummary headers (length rows)\<rparr>]))))"

subsection \<open>chunkText\<close>

definition isTerminator :: "char \<Rightarrow> bool" where
  "isTerminator c = (c = CHR ''.'' \<or> c = CHR ''!'' \<or> c = CHR ''?'')"

function splitSentences :: "string \<Rightarrow> string list" where
  \<comment> \<open>\<open>text.split(/[.!?]+/)\<close>\<close>
  "splitSentences s =
     (let piece = takeWhile (\<lambda>c. \<not> isTerminator c) s;
          rest = dropWhile (\<lambda>c. \<not> isTerminator c) s
      in if rest = [] then [piece]
         else piece # splitSentences (dropWhile isTerminator (tl rest)))"
  by pat_completeness auto
termination
proof (relation "measure length")
  show "wf (measure length)" by simp
next
  fix s :: string and piece rest
  assume r: "rest = dropWhile (\<lambda>c. \<not> isTerminator c) s" and ne: "rest \<noteq> []"
  have "length (dropWhile isTerminator (tl rest)) \<le> length (tl rest)"
    by (rule length_dropWhile_le)
  also have "\<dots> < length rest" using ne by (cases rest) simp_all
  also have "\<dots> \<le> length s" unfolding r by (rule length_dropWhile_le)
  finally show "(dropWhile isTerminator (tl rest), s) \<in> measure length" by simp
qed

declare splitSentences.simps [simp del]

definition sentencesOf :: "string \<Rightarrow> string list" where
  \<comment> \<open>\<open>.filter(s => s.trim().length > 0)\<close>\<close>
  "sentencesOf text = filter (\<lambda>s. length (trim s) > 0) (splitSentences text)"

definition sliceFromEnd :: "nat \<Rightarrow> string \<Rightarrow> string" where
  \<comment> \<open>\<open>s.slice(-n)\<close>; \<open>slice(-0)\<close> is \<open>slice(0)\<close>, the whole string\<close>
  "sliceFromEnd n s = (if n = 0 then s else drop (length s - n) s)"

definition mkChunk :: "FileMetadata option \<Rightarrow> TextChunk list \<Rightarrow> string \<Rightarrow> TextChunk" where
  \<comment> \<open>the chunk pushed for the buffer \<open>currentChunk\<close> when \<open>chunks\<close> are already there\<close>
  "mkChunk meta chunks currentChunk =
     \<lparr>content = trim currentChunk,
      metadata = TextPiece meta (length chunks) (length currentChunk)\<rparr>"

fun chunkLoop ::
  "FileMetadata option \<Rightarrow> nat \<Rightarrow> nat \<Rightarrow> string list \<Rightarrow>
   TextChunk list \<times> string \<times> nat \<Rightarrow> TextChunk list \<times> string \<times> nat" where
  "chunkLoop meta chunkSize overlap [] st = st"
| "chunkLoop meta chunkSize overlap (sentence # rest) (chunks, currentChunk, currentLength) =
     (let sentenceLength = length sentence
      in if currentLength + sentenceLength > chunkSize \<and> length currentChunk > 0 then
           (let overlapText = sliceFromEnd overlap currentChunk
            in chunkLoop meta chunkSize overlap rest
                 (chunks @ [mkChunk meta chunks currentChunk],
                  overlapText @ sentence,
                  length overlapText + sentenceLength))
         else
           chunkLoop meta chunkSize overlap rest
             (chunks, currentChunk @ sentence @ ''. '', currentLength + sentenceLength))"

definition chunkText :: "string \<Rightarrow> FileMetadata option \<Rightarrow> nat \<Rightarrow> nat \<Rightarrow> TextChunk list" where
  "chunkText text meta chunkSize overlap =
     (case chunkLoop meta chunkSize overlap (sentencesOf text) ([], [], 0) of
        (chunks, currentChunk, currentLength) \<Rightarrow>
          if length (trim currentChunk) > 0
          then chunks @ [mkChunk meta chunks currentChunk]
          else chunks)"

text \<open>
  The chunks described by what they are cut from. The sentences are packed, in order,
  into groups; the first buffer is the first group packed, every later buffer is the
  trailing \<open>overlap\<close> characters of the buffer before it, followed by the first sentence
  of its group as it is and the other sentences packed. A chunk is the trim of its buffer
  and records its index and the length of the buffer.
\<close>

definition packed :: "string list \<Rightarrow> string" where
  "packed g = concat (map (\<lambda>s. s @ ''. '') g)"

definition continued :: "nat \<Rightarrow> string \<Rightarrow> string list \<Rightarrow> string" where
  "continued overlap buffer g =
     (case g of [] \<Rightarrow> sliceFromEnd overlap buffer
      | s # ss \<Rightarrow> sliceFromEnd overlap buffer @ s @ packed ss)"

fun buffersFrom :: "nat \<Rightarrow> string \<Rightarrow> string list list \<Rightarrow> string list" where
  "buffersFrom overlap buffer [] = [buffer]"
| "buffersFrom overlap buffer (g # gs) =
     buffer # buffersFrom overlap (continued overlap buffer g) gs"

definition buffersOf :: "nat \<Rightarrow> string list list \<Rightarrow> string list" where
  "buffersOf overlap groups =
     (case groups of [] \<Rightarrow> [] | g # gs \<Rightarrow> buffersFrom overlap (packed g) gs)"

definition chunksOf :: "FileMetadata option \<Rightarrow> string list \<Rightarrow> TextChunk list" where
  "chunksOf meta buffers =
     map (\<lambda>(i, b). \<lparr>content = trim b, metadata = TextPiece meta i (length b)\<rparr>)
       (zip [0..<length buffers] buffers)"

definition defaultChunkSize :: nat where
  "defaultChunkSize = 1000"

definition defaultOverlap :: nat where
  "defaultOverlap = 200"

subsection \<open>detectComputationalQuery\<close>

definition computationKeywords :: "string list" where
  "computationKeywords =
     [''sum'', ''total'', ''average'', ''mean'', ''calculate'', ''computation'',
      ''between'', ''from'', ''till'', ''combined'', ''aggregate'', ''statistics'']"

definition detectComputationalQuery :: "string \<Rightarrow> bool" where
  "detectComputationalQuery query =
     list_ex (\<lambda>keyword. includes_str (toLowerCase query) keyword) computationKeywords"

subsection \<open>performAgriculturalComputation\<close>

definition crops :: "string list" where
  "crops = [''rice'', ''wheat'', ''maize'', ''jowar'', ''bajra'', ''ragi'', ''cotton'',
            ''sugarcane'']"

definition states :: "string list" where
  "states = [''andhra pradesh'', ''assam'', ''kerala'', ''manipur'', ''maharashtra'',
             ''madhya pradesh'', ''punjab'', ''tamil nadu'', ''orissa'', ''karnataka'',
             ''gujarat'']"

fun yearMatches :: "string \<Rightarrow> string list" where
  \<comment> \<open>\<open>query.match(/\d{4}/g)\<close>: the runs of four digits, left to right, not overlapping\<close>
  "yearMatches s =
     (if length s < 4 then []
      else if list_all isDigit (take 4 s) then take 4 s # yearMatches (drop 4 s)
      else yearMatches (tl s))"

definition extractYears :: "string \<Rightarrow> nat list" where
  \<comment> \<open>\<open>yearMatches ? yearMatches.map(y => parseInt(y)) : []\<close>\<close>
  "extractYears query = map digitsVal (yearMatches query)"

definition rowMatches :: "string \<Rightarrow> string option \<Rightarrow> row \<Rightarrow> bool" where
  "rowMatches crop state r =
     (let rowText = toLowerCase (join '' '' (map snd r));
          hasCrop = includes_str rowText crop;
          hasState = (case state of None \<Rightarrow> True | Some s \<Rightarrow> includes_str rowText s)
      in hasCrop \<and> hasState)"

definition collectValues :: "nat list \<Rightarrow> row list \<Rightarrow> jsnum list" where
  "collectValues years filteredData =
     concat (map (\<lambda>r.
       concat (map (\<lambda>(key, v).
         if length years = 0 \<or> list_ex (\<lambda>year. includes_str key (natToString year)) years
         then (let numValue = parseFloat v in if \<not> isNaN numValue then [numValue] else [])
         else []) r)) filteredData)"

definition yearRangeText :: "nat list \<Rightarrow> string" where
  "yearRangeText years =
     (case years of
        [] \<Rightarrow> ''available years''
      | y # ys \<Rightarrow> natToString (foldl min y ys) @ ''-'' @ natToString (foldl max y ys))"

definition performAgriculturalComputation ::
  "(real \<Rightarrow> string) \<Rightarrow> string \<Rightarrow> row list \<Rightarrow> string" where
  \<comment> \<open>\<open>numberToString\<close> is the engine's printing of numbers from \<open>10^21\<close>, see \<open>fixedAbs\<close>\<close>
  "performAgriculturalComputation numberToString query csvData =
     (let queryLower = toLowerCase query;
          crop = find (\<lambda>c. includes_str queryLower c) crops;
          state = find (\<lambda>s. includes_str queryLower s) states;
          years = extractYears query
      in case crop of
           None \<Rightarrow> ''Please specify a crop for computation (e.g., rice, wheat, maize).''
         | Some crop \<Rightarrow>
             (let filteredData = filter (rowMatches crop state) csvData
              in if length filteredData = 0 then
                   ''No data found for '' @ crop @
                     (case state of None \<Rightarrow> [] | Some s \<Rightarrow> '' in '' @ s) @ ''.''
                 else
                   (let values = collectValues years filteredData
                    in if length values = 0 then ''No numeric data found for computation.''
                       else
                         (let total = foldl js_add (Fin 0) values;
                              average = js_div total (Fin (real (length values)));
                              yearRange = yearRangeText years;
                              stateText =
                                (case state of None \<Rightarrow> [] | Some s \<Rightarrow> '' in '' @ capitalize s)
                          in ''Computation Results for '' @ capitalize crop @ stateText @
                               '' ('' @ yearRange @ ''):'' @ newline @
                             ''Total: '' @ toFixed2 numberToString total @ newline @
                             ''Average: '' @ toFixed2 numberToString average @ newline @
                             ''Data points: '' @ natToString (length values)))))"

section \<open>The in-memory store and the vector search\<close>

text \<open>
  The JSON metadata of a stored chunk is open; the two fields the pipeline reads are kept.
  The stored chunks are the values of the store's map in insertion order.
\<close>

record Metadata =
  fileName :: "string option"
  metaType :: "string option"

record Chunk =
  chunkId :: string
  datasetId :: "string option"
  chunkContent :: string
  embedding :: "jsnum list option"
  chunkMetadata :: "Metadata option"

record Dataset =
  dsId :: string
  name :: string
  fileType :: string
  filePath :: string
  status :: string

definition dotProduct :: "jsnum list \<Rightarrow> jsnum list \<Rightarrow> jsnum" where
  \<comment> \<open>\<open>a.reduce((sum, ai, i) => sum + ai * b[i], 0)\<close>: past the end of \<open>b\<close> the read is
     \<open>undefined\<close>, which multiplies to NaN\<close>
  "dotProduct a b =
     foldl (\<lambda>sum (ai, bi). js_add sum (js_mul ai bi)) (Fin 0)
       (zip a (b @ replicate (length a - length b) NaN))"

definition magnitude :: "jsnum list \<Rightarrow> jsnum" where
  \<comment> \<open>\<open>Math.sqrt(a.reduce((sum, ai) => sum + ai * ai, 0))\<close>\<close>
  "magnitude a = js_sqrt (foldl (\<lambda>sum ai. js_add sum (js_mul ai ai)) (Fin 0) a)"

definition cosineSimilarity :: "jsnum list \<Rightarrow> jsnum list \<Rightarrow> jsnum" where
  "cosineSimilarity a b =
     (let magnitudeA = magnitude a;
          magnitudeB = magnitude b
      in js_div (dotProduct a b) (js_mul magnitudeA magnitudeB))"

definition hasEmbedding :: "Chunk \<Rightarrow> bool" where
  \<comment> \<open>\<open>chunk.embedding && chunk.embedding.length > 0\<close>\<close>
  "hasEmbedding chunk = (case embedding chunk of None \<Rightarrow> False | Some e \<Rightarrow> length e > 0)"

definition chunkScore :: "jsnum list \<Rightarrow> Chunk \<Rightarrow> jsnum" where
  \<comment> \<open>\<open>this.cosineSimilarity(embedding, chunk.embedding!)\<close>, computed after the filter only\<close>
  "chunkScore q chunk =
     (case embedding chunk of None \<Rightarrow> NaN | Some e \<Rightarrow> cosineSimilarity q e)"

definition compareScores :: "Chunk \<times> jsnum \<Rightarrow> Chunk \<times> jsnum \<Rightarrow> jsnum" where
  \<comment> \<open>\<open>(a, b) => b.score - a.score\<close>\<close>
  "compareScores a b = js_sub (snd b) (snd a)"

text \<open>
  \<open>Array.prototype.sort\<close> (ECMA-262): when the comparator is a consistent comparator for
  the elements, the result is sorted by it and the sort is stable, which leaves one
  arrangement; insertion from the left computes it. When it is not (here: as soon as a
  comparison yields NaN), the standard leaves the order to the engine: the result is then
  what the engine's ordering, the parameter \<open>engineOrder\<close>, makes of the array.
\<close>

definition sortCompare :: "('a \<Rightarrow> 'a \<Rightarrow> jsnum) \<Rightarrow> 'a \<Rightarrow> 'a \<Rightarrow> int option" where
  \<comment> \<open>the sign of the comparator's result; none for NaN\<close>
  "sortCompare cmp a b =
     (case cmp a b of
        NaN \<Rightarrow> None
      | Fin v \<Rightarrow> Some (if v < 0 then - 1 else if 0 < v then 1 else 0)
      | PosInf \<Rightarrow> Some 1
      | NegInf \<Rightarrow> Some (- 1))"

definition consistentAt :: "('a \<Rightarrow> 'a \<Rightarrow> jsnum) \<Rightarrow> 'a \<Rightarrow> 'a \<Rightarrow> 'a \<Rightarrow> bool" where
  \<comment> \<open>the conditions of a consistent comparator at the values \<open>a\<close>, \<open>b\<close>, \<open>c\<close>\<close>
  "consistentAt cmp a b c =
     (sortCompare cmp a b \<noteq> None \<and>
      sortCompare cmp a a = Some 0 \<and>
      (sortCompare cmp a b = Some 0 \<longrightarrow> sortCompare cmp b a = Some 0) \<and>
      (sortCompare cmp a b = Some 0 \<and> sortCompare cmp b c = Some 0 \<longrightarrow>
         sortCompare cmp a c = Some 0) \<and>
      (sortCompare cmp a b = Some (- 1) \<and> sortCompare cmp b c = Some (- 1) \<longrightarrow>
         sortCompare cmp a c = Some (- 1)) \<and>
      (sortCompare cmp a b = Some 1 \<and> sortCompare cmp b c = Some 1 \<longrightarrow>
         sortCompare cmp a c = Some 1))"

definition consistentComparator :: "('a \<Rightarrow> 'a \<Rightarrow> jsnum) \<Rightarrow> 'a list \<Rightarrow> bool" where
  "consistentComparator cmp xs =
     list_all (\<lambda>a. list_all (\<lambda>b. list_all (\<lambda>c. consistentAt cmp a b c) xs) xs) xs"

definition comesBefore :: "('a \<Rightarrow> 'a \<Rightarrow> jsnum) \<Rightarrow> 'a \<Rightarrow> 'a \<Rightarrow> bool" where
  \<comment> \<open>the comparator's result is negative\<close>
  "comesBefore cmp x y = (sortCompare cmp x y = Some (- 1))"

fun insertSorted :: "('a \<Rightarrow> 'a \<Rightarrow> jsnum) \<Rightarrow> 'a \<Rightarrow> 'a list \<Rightarrow> 'a list" where
  "insertSorted cmp x [] = [x]"
| "insertSorted cmp x (y # ys) =
     (if comesBefore cmp x y then x # y # ys else y # insertSorted cmp x ys)"

definition js_sort ::
  "('a list \<Rightarrow> 'a list) \<Rightarrow> ('a \<Rightarrow> 'a \<Rightarrow> jsnum) \<Rightarrow> 'a list \<Rightarrow> 'a list" where
  "js_sort engineOrder cmp xs =
     (if consistentComparator cmp xs
      then foldl (\<lambda>sorted x. insertSorted cmp x sorted) [] xs
      else engineOrder xs)"

definition sliceTo :: "int \<Rightarrow> 'a list \<Rightarrow> 'a list" where
  \<comment> \<open>\<open>xs.slice(0, limit)\<close> for an integer limit; a negative one counts from the end\<close>
  "sliceTo limit xs =
     (if limit < 0 then take (nat (int (length xs) + limit)) xs else take (nat limit) xs)"

definition searchChunksByEmbedding ::
  "((Chunk \<times> jsnum) list \<Rightarrow> (Chunk \<times> jsnum) list) \<Rightarrow> Chunk list \<Rightarrow> jsnum list \<Rightarrow> int \<Rightarrow>
   Chunk list" where
  "searchChunksByEmbedding engineOrder chunks q limit =
     (let chunksWithScores =
            sliceTo limit
              (js_sort engineOrder compareScores
                 (map (\<lambda>chunk. (chunk, chunkScore q chunk)) (filter hasEmbedding chunks)))
      in map fst chunksWithScores)"

section \<open>The RAG pipeline\<close>

text \<open>
  The collaborators of the pipeline and the engine it runs on are the fields of an
  environment: a call that can throw returns a sum. Every function that calls a
  collaborator returns, next to its result, the list of the calls it made, in order.

  \<open>loadCsvData\<close> pipes the file's read stream into the CSV parser and listens for
  \<open>error\<close> on the parser's stream only. It resolves with the rows, or rejects with the
  parser's error; when the file itself cannot be read, the read stream's error has no
  listener and the promise is never settled: that outcome is \<open>None\<close>, and a function
  that awaits it has no result either.
\<close>

record Env =
  generateEmbedding :: "string \<Rightarrow> error + jsnum list"
  storedChunks :: "Chunk list"
  getAllDatasets :: "error + Dataset list"
  postToModel :: "string \<Rightarrow> string \<Rightarrow> error + string"
  apiKey :: string
  loadCsvData :: "string \<Rightarrow> (error + row list) option"
  maxArguments :: nat
  numberToString :: "real \<Rightarrow> string"
  engineOrder :: "(Chunk \<times> jsnum) list \<Rightarrow> (Chunk \<times> jsnum) list"

datatype event =
    EmbeddingRequest string
  | ModelRequest string string
  | DatasetsRead
  | CsvRead string

datatype ResponseInfo = ComputationInfo nat nat | RetrievalInfo nat string

record RAGResponse =
  answer :: string
  sources :: "string list"
  isComputation :: bool
  responseMetadata :: "ResponseInfo option"

definition generateFallbackResponse :: "string \<Rightarrow> string" where
  "generateFallbackResponse prompt =
     (if includes_str (toLowerCase prompt) ''computation'' \<or>
         includes_str (toLowerCase prompt) ''calculate''
      then ''I understand you'' @ [CHR 0x27] @ ''re asking for computational analysis. Please provide your agricultural data and I'' @ [CHR 0x27] @ ''ll help you calculate the statistics you need.''
      else if includes_str (toLowerCase prompt) ''crop'' \<or>
              includes_str (toLowerCase prompt) ''farming''
      then ''I'' @ [CHR 0x27] @ ''m here to help with agricultural questions. I can assist with crop information, farming practices, weather guidance, and data analysis. What specific agricultural topic would you like to know about?''
      else ''I'' @ [CHR 0x27] @ ''m an agricultural AI assistant. I can help you with farming questions, crop data analysis, weather information, and agricultural best practices. How can I assist you today?'')"

definition generateResponse :: "Env \<Rightarrow> string \<Rightarrow> string \<Rightarrow> error + string" where
  \<comment> \<open>\<open>postToModel\<close> is the request and the reading of its reply, the body of the \<open>try\<close>\<close>
  "generateResponse env prompt model =
     (case postToModel env prompt model of
        Inr text \<Rightarrow> Inr text
      | Inl e \<Rightarrow>
          if apiKey env = [] then Inr (generateFallbackResponse prompt)
          else Inl (Error ''Failed to generate response from Hugging Face API''))"

definition searchSimilarChunks ::
  "Env \<Rightarrow> string \<Rightarrow> int \<Rightarrow> (error + Chunk list) \<times> event list" where
  "searchSimilarChunks env query topK =
     (case generateEmbedding env query of
        Inl e \<Rightarrow> (Inl (Error ''Vector search failed''), [EmbeddingRequest query])
      | Inr queryEmbedding \<Rightarrow>
          (Inr (searchChunksByEmbedding (engineOrder env) (storedChunks env) queryEmbedding
                  topK),
           [EmbeddingRequest query]))"

definition createRAGPrompt :: "string \<Rightarrow> string \<Rightarrow> string \<Rightarrow> string" where
  "createRAGPrompt query context language =
     (let languageInstruction =
            (if language \<noteq> ''english'' then ''Please respond in '' @ language @ ''. '' else [])
      in ''You are an expert agricultural assistant with access to agricultural datasets and research documents. '' @ newline @
         languageInstruction @ ''Use the following context to answer the user'' @ [CHR 0x27] @ ''s question clearly and accurately.'' @ newline @
         newline @
         ''Context:'' @ newline @
         context @ newline @
         newline @
         ''Question: '' @ query @ newline @
         newline @
         ''Instructions:'' @ newline @
         ''- Provide accurate, helpful information based on the context'' @ newline @
         ''- If the context doesn'' @ [CHR 0x27] @ ''t contain enough information, say so clearly'' @ newline @
         ''- Focus on practical agricultural advice and data-driven insights'' @ newline @
         ''- Be concise but comprehensive'' @ newline @
         ''- If relevant, mention specific data points or statistics from the context'' @ newline @
         newline @
         ''Answer:'')"

definition stripPrefix :: "string \<Rightarrow> string \<Rightarrow> string" where
  \<comment> \<open>one round of the loop over the unwanted prefixes\<close>
  "stripPrefix cleanedResponse pre =
     (if startsWith cleanedResponse pre then trim (drop (length pre) cleanedResponse)
      else cleanedResponse)"

definition postProcessResponse :: "string \<Rightarrow> string" where
  "postProcessResponse response =
     foldl stripPrefix (trim response) [''Answer:'', ''Response:'', ''A:'']"

definition truthy :: "string option \<Rightarrow> bool" where
  \<comment> \<open>an absent field and an empty string are both falsy\<close>
  "truthy v = (v \<noteq> None \<and> v \<noteq> Some [])"

definition fileNameOf :: "Chunk \<Rightarrow> string option" where
  \<comment> \<open>\<open>metadata?.fileName\<close>\<close>
  "fileNameOf chunk = (case chunkMetadata chunk of None \<Rightarrow> None | Some m \<Rightarrow> fileName m)"

definition typeOf :: "Chunk \<Rightarrow> string option" where
  \<comment> \<open>\<open>metadata?.type\<close>\<close>
  "typeOf chunk = (case chunkMetadata chunk of None \<Rightarrow> None | Some m \<Rightarrow> metaType m)"

definition sourceOf :: "Chunk \<Rightarrow> string" where
  "sourceOf chunk =
     (if truthy (fileNameOf chunk) then the (fileNameOf chunk)
      else if typeOf chunk = Some ''csv_summary'' \<or> typeOf chunk = Some ''csv_row''
      then ''CSV Dataset''
      else if truthy (typeOf chunk) then the (typeOf chunk)
      else ''Unknown source'')"

fun indexFrom :: "int \<Rightarrow> 'a list \<Rightarrow> 'a \<Rightarrow> int" where
  "indexFrom i [] x = - 1"
| "indexFrom i (y # ys) x = (if y = x then i else indexFrom (i + 1) ys x)"

definition indexOf :: "'a list \<Rightarrow> 'a \<Rightarrow> int" where
  \<comment> \<open>\<open>arr.indexOf(x)\<close>: the first index of \<open>x\<close>, \<open>-1\<close> when it is absent\<close>
  "indexOf arr x = indexFrom 0 arr x"

definition removeDuplicates :: "string list \<Rightarrow> string list" where
  \<comment> \<open>\<open>.filter((source, index, arr) => arr.indexOf(source) === index)\<close>\<close>
  "removeDuplicates arr =
     map fst (filter (\<lambda>(source, index). indexOf arr source = int index)
                (zip arr [0..<length arr]))"

definition extractSources :: "Chunk list \<Rightarrow> string list" where
  "extractSources relevantChunks = removeDuplicates (map sourceOf relevantChunks)"

definition insufficientAnswer :: string where
  "insufficientAnswer =
     ''I don'' @ [CHR 0x27] @ ''t have enough information in my knowledge base to answer that question. Please provide more context or upload relevant documents.''"

definition handleRAGQuery ::
  "Env \<Rightarrow> string \<Rightarrow> string \<Rightarrow> string \<Rightarrow> (error + RAGResponse) \<times> event list" where
  "handleRAGQuery env query model language =
     (case searchSimilarChunks env query 5 of
        (Inl e, calls) \<Rightarrow> (Inl e, calls)
      | (Inr relevantChunks, calls) \<Rightarrow>
          if length relevantChunks = 0 then
            (Inr \<lparr>answer = insufficientAnswer, sources = [], isComputation = False,
                  responseMetadata = None\<rparr>, calls)
          else
            (let context = join (newline @ newline) (map chunkContent relevantChunks);
                 prompt = createRAGPrompt query context language
             in case generateResponse env prompt model of
                  Inl e \<Rightarrow> (Inl e, calls @ [ModelRequest prompt model])
                | Inr response \<Rightarrow>
                    (Inr \<lparr>answer = postProcessResponse response,
                          sources = extractSources relevantChunks,
                          isComputation = False,
                          responseMetadata =
                            Some (RetrievalInfo (length relevantChunks) model)\<rparr>,
                     calls @ [ModelRequest prompt model])))"

fun loadAll :: "Env \<Rightarrow> Dataset list \<Rightarrow> row list \<Rightarrow> row list option \<times> event list" where
  \<comment> \<open>The loop over the CSV datasets, \<open>allCsvData\<close> being the rows gathered so far. A
     rejected load is caught and skipped; so is a \<open>push(...csvData)\<close> with more arguments
     than the engine takes (RangeError). A load that is never settled leaves the loop
     waiting: no result.\<close>
  "loadAll env [] allCsvData = (Some allCsvData, [])"
| "loadAll env (dataset # rest) allCsvData =
     (case loadCsvData env (filePath dataset) of
        None \<Rightarrow> (None, [CsvRead (filePath dataset)])
      | Some loaded \<Rightarrow>
          (case loadAll env rest
                  (case loaded of
                     Inl e \<Rightarrow> allCsvData
                   | Inr csvData \<Rightarrow>
                       if length csvData > maxArguments env then allCsvData
                       else allCsvData @ csvData) of
             (result, calls) \<Rightarrow> (result, CsvRead (filePath dataset) # calls)))"

definition handleComputationalQuery :: "Env \<Rightarrow> string \<Rightarrow> RAGResponse option \<times> event list" where
  \<comment> \<open>The whole body is inside \<open>try\<close>: a failing store read ends in the \<open>catch\<close>.\<close>
  "handleComputationalQuery env query =
     (case getAllDatasets env of
        Inl e \<Rightarrow>
          (Some \<lparr>answer = ''Error processing computational query. Please check your query format and try again.'',
                 sources = [], isComputation = True, responseMetadata = None\<rparr>, [DatasetsRead])
      | Inr datasets \<Rightarrow>
          (let csvDatasets = filter (\<lambda>d. fileType d = ''csv'' \<and> status d = ''ready'') datasets
           in if length csvDatasets = 0 then
                (Some \<lparr>answer = ''No CSV datasets available for computation. Please upload agricultural data first.'',
                       sources = [], isComputation = True, responseMetadata = None\<rparr>,
                 [DatasetsRead])
              else
                (case loadAll env csvDatasets [] of
                   (None, calls) \<Rightarrow> (None, DatasetsRead # calls)
                 | (Some allCsvData, calls) \<Rightarrow>
                     if length allCsvData = 0 then
                       (Some \<lparr>answer = ''Unable to load CSV data for computation. Please check your uploaded files.'',
                              sources = map name csvDatasets, isComputation = True,
                              responseMetadata = None\<rparr>, DatasetsRead # calls)
                     else
                       (Some \<lparr>answer = performAgriculturalComputation (numberToString env) query
                                         allCsvData,
                              sources = map name csvDatasets, isComputation = True,
                              responseMetadata =
                                Some (ComputationInfo (length csvDatasets) (length allCsvData))\<rparr>,
                        DatasetsRead # calls))))"

definition processQuery ::
  "Env \<Rightarrow> string \<Rightarrow> string \<Rightarrow> string \<Rightarrow> (error + RAGResponse) option \<times> event list" where
  \<comment> \<open>\<open>None\<close>: the promise is never settled\<close>
  "processQuery env query model language =
     (let isComputation' = detectComputationalQuery query
      in if isComputation' then
           (case handleComputationalQuery env query of
              (response, calls) \<Rightarrow> (map_option Inr response, calls))
         else
           (case handleRAGQuery env query model language of
              (Inl e, calls) \<Rightarrow> (Some (Inl (Error ''Failed to process query'')), calls)
            | (Inr response, calls) \<Rightarrow> (Some (Inr response), calls)))"

section \<open>Sample inputs\<close>

definition keepOrder :: "'a list \<Rightarrow> 'a list" where
  \<comment> \<open>an engine that leaves an array it cannot order as it is\<close>
  "keepOrder xs = xs"

definition plainDigits :: "real \<Rightarrow> string" where
  \<comment> \<open>a stand-in for the printing of numbers from \<open>10^21\<close>, which no sample reaches\<close>
  "plainDigits x = natToString (nat \<lfloor>x\<rfloor>)"

definition offlineEnv :: Env where
  \<comment> \<open>an empty store, no API key, no network, no file\<close>
  "offlineEnv =
     \<lparr>generateEmbedding = (\<lambda>text. Inr [Fin 1, Fin 0]),
      storedChunks = [],
      getAllDatasets = Inr [],
      postToModel = (\<lambda>prompt model. Inl (Error ''Network Error'')),
      apiKey = [],
      loadCsvData = (\<lambda>path. None),
      maxArguments = 65535,
      numberToString = plainDigits,
      engineOrder = keepOrder\<rparr>"

definition brokenEmbeddingEnv :: Env where
  "brokenEmbeddingEnv =
     offlineEnv\<lparr>generateEmbedding := (\<lambda>text. Inl (Error ''Failed to generate embeddings''))\<rparr>"

definition riceChunk :: Chunk where
  "riceChunk =
     \<lparr>chunkId = ''c1'', datasetId = Some ''d1'', chunkContent = ''Rice needs standing water.'',
      embedding = Some [Fin 1, Fin 0],
      chunkMetadata = Some \<lparr>fileName = Some ''rice.pdf'', metaType = Some ''pdf''\<rparr>\<rparr>"

definition soilChunk :: Chunk where
  "soilChunk =
     \<lparr>chunkId = ''c2'', datasetId = Some ''d1'', chunkContent = ''Loam drains well.'',
      embedding = Some [Fin 0, Fin 1],
      chunkMetadata = Some \<lparr>fileName = Some ''rice.pdf'', metaType = Some ''pdf''\<rparr>\<rparr>"

definition rowChunk :: Chunk where
  "rowChunk =
     \<lparr>chunkId = ''c3'', datasetId = Some ''d2'', chunkContent = ''crop: rice, state: punjab'',
      embedding = Some [Fin (- 1), Fin 0],
      chunkMetadata = Some \<lparr>fileName = None, metaType = Some ''csv_row''\<rparr>\<rparr>"

definition paddyChunk :: Chunk where
  "paddyChunk =
     \<lparr>chunkId = ''c4'', datasetId = Some ''d3'', chunkContent = ''Paddy is transplanted.'',
      embedding = Some [Fin 2, Fin 0],
      chunkMetadata = Some \<lparr>fileName = None, metaType = Some ''note''\<rparr>\<rparr>"

definition bareChunk :: Chunk where
  \<comment> \<open>stored without a vector\<close>
  "bareChunk =
     \<lparr>chunkId = ''c5'', datasetId = None, chunkContent = ''Not indexed yet.'',
      embedding = None, chunkMetadata = None\<rparr>"

definition zeroChunk :: Chunk where
  \<comment> \<open>stored with a zero vector\<close>
  "zeroChunk =
     \<lparr>chunkId = ''c6'', datasetId = None, chunkContent = ''Nothing.'',
      embedding = Some [Fin 0, Fin 0], chunkMetadata = None\<rparr>"

definition indexedEnv :: Env where
  "indexedEnv =
     \<lparr>generateEmbedding = (\<lambda>text. Inr [Fin 1, Fin 0]),
      storedChunks = [soilChunk, riceChunk, bareChunk, rowChunk, paddyChunk],
      getAllDatasets = Inr [],
      postToModel = (\<lambda>prompt model. Inr ''Answer: Keep the field flooded.''),
      apiKey = ''hf_key'',
      loadCsvData = (\<lambda>path. None),
      maxArguments = 65535,
      numberToString = plainDigits,
      engineOrder = keepOrder\<rparr>"

definition riceRow :: row where
  \<comment> \<open>\<open>{crop: rice, state: punjab, 2020: 100, 2021: 120}\<close>: integer-like keys are
     enumerated first, in ascending order\<close>
  "riceRow = [(''2020'', ''100''), (''2021'', ''120''), (''crop'', ''rice''), (''state'', ''punjab'')]"

definition riceDataset :: Dataset where
  "riceDataset =
     \<lparr>dsId = ''d2'', name = ''rice.csv'', fileType = ''csv'', filePath = ''uploads/rice.csv'',
      status = ''ready''\<rparr>"

definition riceEnv :: Env where
  \<comment> \<open>one ready CSV dataset whose file holds the rice row\<close>
  "riceEnv =
     offlineEnv\<lparr>getAllDatasets := Inr [riceDataset],
                loadCsvData := (\<lambda>path. Some (Inr [riceRow]))\<rparr>"

definition riceQuery :: string where
  "riceQuery = ''What is the total rice production in Punjab from 2020 to 2022?''"

definition wheatQuery :: string where
  "wheatQuery = ''What are the best practices for wheat cultivation?''"

section \<open>Rounding to the nearest double\<close>

lemma roundEven_int [simp]: "roundEven (of_int n) = n"
  by (simp add: roundEven_def)

lemma roundEven_nearest:
  assumes "\<bar>q - of_int m\<bar> < 1 / 2"
  shows "roundEven q = m"
proof -
  consider "of_int m \<le> q" | "q < of_int m" by linarith
  then show ?thesis
  proof cases
    case 1
    with assms have "\<lfloor>q\<rfloor> = m" by (intro floor_unique) linarith+
    with 1 assms show ?thesis by (simp add: roundEven_def)
  next
    case 2
    with assms have f: "\<lfloor>q\<rfloor> = m - 1" by (intro floor_unique) (simp, linarith)+
    with 2 assms have "1 / 2 < q - of_int \<lfloor>q\<rfloor>" by simp
    with f show ?thesis by (simp add: roundEven_def)
  qed
qed

lemma roundEven_minus: "roundEven (- q) = - roundEven q"
proof (cases "q \<in> \<int>")
  case True
  then obtain n where "q = of_int n" by (auto elim: Ints_cases)
  then show ?thesis using roundEven_int [of "- n"] by simp
next
  case False
  have "of_int \<lfloor>q\<rfloor> \<noteq> q"
  proof
    assume "of_int \<lfloor>q\<rfloor> = q"
    then have "q \<in> \<int>" by (metis Ints_of_int)
    with False show False by simp
  qed
  then have lt: "of_int \<lfloor>q\<rfloor> < q" using of_int_floor_le [of q] by linarith
  have f: "\<lfloor>- q\<rfloor> = - \<lfloor>q\<rfloor> - 1"
  proof (rule floor_unique)
    have "q < of_int \<lfloor>q\<rfloor> + 1" by linarith
    then show "of_int (- \<lfloor>q\<rfloor> - 1) \<le> - q" by simp linarith
    from lt show "- q < of_int (- \<lfloor>q\<rfloor> - 1) + 1" by simp
  qed
  show ?thesis
    unfolding roundEven_def Let_def f using lt
    by (auto simp: algebra_simps)
qed

lemma overflowBound_pos [simp]: "0 < overflowBound"
  by (simp add: overflowBound_def)

lemma ulp_pos [simp]: "0 < ulp x"
  by (simp add: ulp_def)

lemma binade_minus [simp]: "binade (- x) = binade x"
  by (simp add: binade_def)

lemma ulp_minus [simp]: "ulp (- x) = ulp x"
  by (simp add: ulp_def)

lemma roundEven_zero [simp]: "roundEven 0 = 0"
  by (simp add: roundEven_def)

lemma round64_zero [simp]: "round64 0 = Fin 0"
  using overflowBound_pos by (simp add: round64_def Let_def not_le)

lemma round64_minus: "round64 (- x) = (case round64 x of Fin y \<Rightarrow> Fin (- y) | PosInf \<Rightarrow> NegInf | NegInf \<Rightarrow> PosInf | NaN \<Rightarrow> NaN)"
proof -
  let ?y = "of_int (roundEven (x / ulp x)) * ulp x"
  have "\<not> (overflowBound \<le> ?y \<and> overflowBound \<le> - ?y)"
    using overflowBound_pos by linarith
  then show ?thesis
    by (auto simp: round64_def Let_def roundEven_minus)
qed

lemma log2_floor:
  fixes x :: real
  assumes "2 powi e \<le> x" "x < 2 powi (e + 1)"
  shows "\<lfloor>log 2 x\<rfloor> = e"
proof -
  have pos: "0 < x" using assms(1) zero_less_power_int [of "2::real" e] by linarith
  have a: "(2::real) powi e = 2 powr (of_int e)" "(2::real) powi (e + 1) = 2 powr (of_int (e + 1))"
    using powr_real_of_int' [of "2::real" e] powr_real_of_int' [of "2::real" "e + 1"]
    by simp_all
  show ?thesis
  proof (rule floor_unique)
    show "of_int e \<le> log 2 x"
      using assms(1) pos unfolding a by (simp add: le_log_iff)
    show "log 2 x < of_int e + 1"
      using assms(2) pos unfolding a by (simp add: log_less_iff)
  qed
qed

lemma two_powi_add: "(2::real) powi a * 2 powi b = 2 powi (a + b)"
  by (simp add: power_int_add)

lemma two_powi_div: "(2::real) powi a / 2 powi b = 2 powi (a - b)"
  by (simp add: power_int_diff)

lemma two_powi_powr: "(2::real) powr real_of_int n = 2 powi n"
  by (rule powr_real_of_int') simp_all

lemma log2_less_powi:
  fixes x :: real
  assumes "0 < x" "x < 2 powi n"
  shows "\<lfloor>log 2 x\<rfloor> < n"
proof -
  from assms(2) have "x < 2 powr real_of_int n" by (simp only: two_powi_powr)
  with assms(1) have "log 2 x < real_of_int n" by (simp add: log_less_iff)
  then show ?thesis by (simp add: floor_less_iff)
qed

lemma binade_normal:
  assumes "2 powi e \<le> \<bar>x\<bar>" "\<bar>x\<bar> < 2 powi (e + 1)" "- 1022 \<le> e"
  shows "binade x = e"
  using log2_floor [OF assms(1,2)] assms(3) by (simp add: binade_def)

lemma binade_lower: "- 1022 \<le> binade x"
  by (simp add: binade_def)

lemma roundEven_ge_floor: "\<lfloor>q\<rfloor> \<le> roundEven q"
  by (simp add: roundEven_def Let_def)

lemma roundEven_le: "of_int (roundEven q) \<le> q + 1 / 2"
  unfolding roundEven_def Let_def
  using of_int_floor_le [of q] by (auto simp: not_less) linarith+

lemma roundEven_ge: "q - 1 / 2 \<le> of_int (roundEven q)"
  unfolding roundEven_def Let_def
  using of_int_floor_le [of q] floor_correct [of q] by (auto simp: not_less) linarith+

lemma overflowBound_powi: "overflowBound = 2 powi 1024"
  by (simp add: overflowBound_def)

lemma round64_eq:
  assumes "roundEven (x / ulp x) = r" and "\<bar>of_int r * ulp x\<bar> < overflowBound"
  shows "round64 x = Fin (of_int r * ulp x)"
proof -
  from assms(2) have "\<not> overflowBound \<le> of_int r * ulp x"
    and "\<not> of_int r * ulp x \<le> - overflowBound"
    by linarith+
  then show ?thesis
    by (simp add: round64_def Let_def assms(1))
qed

lemma round64_nearest:
  assumes lo: "2 powi e \<le> \<bar>x\<bar>" and hi: "\<bar>x\<bar> < 2 powi (e + 1)"
    and e: "- 1022 \<le> e" "e \<le> 1022"
    and m: "\<bar>x / 2 powi (e - 52) - of_int m\<bar> < 1 / 2"
  shows "round64 x = Fin (of_int m * 2 powi (e - 52))"
proof -
  have b: "binade x = e" by (rule binade_normal [OF lo hi e(1)])
  then have u: "ulp x = 2 powi (e - 52)" by (simp add: ulp_def)
  have r: "roundEven (x / ulp x) = m"
    unfolding u by (rule roundEven_nearest [OF m])
  have up: "(0::real) < 2 powi (e - 52)" by simp
  have "\<bar>x / 2 powi (e - 52)\<bar> < 2 powi (e + 1) / 2 powi (e - 52)"
    using hi up by (simp add: divide_strict_right_mono)
  also have "\<dots> = 2 powi (e + 1 - (e - 52))"
    by (rule two_powi_div)
  also have "\<dots> = 2 powi 53"
    by (rule arg_cong [where f = "\<lambda>n. 2 powi n"]) simp
  finally have "\<bar>x / 2 powi (e - 52)\<bar> < (2::real) ^ 53" by simp
  with m have "\<bar>real_of_int m\<bar> < 2 ^ 53 + 1 / 2" by linarith
  then have "real_of_int \<bar>m\<bar> < real_of_int (2 ^ 53 + 1)" by simp
  then have "\<bar>m\<bar> < 2 ^ 53 + 1" by (simp only: of_int_less_iff)
  then have "\<bar>m\<bar> \<le> 2 ^ 53" by simp
  then have "real_of_int \<bar>m\<bar> \<le> real_of_int (2 ^ 53)" by (simp only: of_int_le_iff)
  then have mb: "\<bar>real_of_int m\<bar> \<le> 2 powi 53" by simp
  have "\<bar>of_int m * 2 powi (e - 52)\<bar> = \<bar>real_of_int m\<bar> * 2 powi (e - 52)"
    by (simp add: abs_mult)
  also have "\<dots> \<le> 2 powi 53 * 2 powi (e - 52)"
    using mb up by (intro mult_right_mono) simp_all
  also have "\<dots> = 2 powi (53 + (e - 52))"
    by (rule two_powi_add)
  also have "\<dots> = 2 powi (e + 1)"
    by (rule arg_cong [where f = "\<lambda>n. 2 powi n"]) simp
  also have "\<dots> \<le> 2 powi 1023"
    using e(2) by (intro power_int_increasing) simp_all
  also have "\<dots> < overflowBound"
    unfolding overflowBound_powi by (intro power_int_strict_increasing) simp_all
  finally have "\<bar>of_int m * 2 powi (e - 52)\<bar> < overflowBound" .
  then have "\<bar>of_int m * ulp x\<bar> < overflowBound" by (simp only: u)
  from round64_eq [OF r this] show ?thesis by (simp only: u)
qed

lemma round64_exact:
  assumes x: "x = of_int m * 2 powi k" and m: "\<bar>m\<bar> < 2 ^ 53" and k: "- 1074 \<le> k" "k \<le> 971"
  shows "round64 x = Fin x"
proof (cases "m = 0")
  case True
  with x show ?thesis by simp
next
  case False
  have kp: "(0::real) < 2 powi k" by simp
  have ax: "\<bar>x\<bar> = \<bar>real_of_int m\<bar> * 2 powi k" by (simp add: x abs_mult)
  have "1 \<le> \<bar>m\<bar>" using False by simp
  then have "1 \<le> \<bar>real_of_int m\<bar>" by linarith
  then have xpos: "0 < \<bar>x\<bar>" using kp by (simp add: ax)
  from m have "real_of_int \<bar>m\<bar> < real_of_int (2 ^ 53)" by (simp only: of_int_less_iff)
  then have "\<bar>real_of_int m\<bar> < 2 ^ 53" by simp
  then have "\<bar>x\<bar> < 2 powi 53 * 2 powi k" unfolding ax using kp by simp
  also have "\<dots> = 2 powi (53 + k)" by (rule two_powi_add)
  finally have xb: "\<bar>x\<bar> < 2 powi (53 + k)" .
  from xpos xb have "\<lfloor>log 2 \<bar>x\<bar>\<rfloor> < 53 + k" by (rule log2_less_powi)
  with k(1) have "binade x - 52 \<le> k" by (simp add: binade_def)
  then have "0 \<le> k - (binade x - 52)" by simp
  then obtain j :: nat where "k - (binade x - 52) = int j"
    using zero_le_imp_eq_int by blast
  then have j: "k = (binade x - 52) + int j" by simp
  define u where "u = ulp x"
  have up: "0 < u" by (simp add: u_def)
  have "(2::real) powi (binade x - 52 + int j) = 2 powi (binade x - 52) * 2 powi (int j)"
    by (rule two_powi_add [symmetric])
  then have "2 powi k = u * (2::real) ^ j"
    unfolding j u_def ulp_def by (simp only: power_int_of_nat)
  then have xu: "x = of_int m * (u * 2 ^ j)" by (simp only: x)
  then have "x / u = of_int m * 2 ^ j" using up by simp
  then have q: "x / ulp x = of_int (m * 2 ^ j)" by (simp add: u_def)
  have r: "roundEven (x / ulp x) = m * 2 ^ j"
    unfolding q by (rule roundEven_int)
  have y: "of_int (m * 2 ^ j) * ulp x = x"
    using xu by (simp add: u_def mult_ac)
  have "\<bar>x\<bar> < 2 powi (53 + k)" by (rule xb)
  also have "\<dots> \<le> 2 powi 1024" using k(2) by (intro power_int_increasing) simp_all
  finally have "\<bar>x\<bar> < overflowBound" by (simp only: overflowBound_powi)
  then have "\<bar>of_int (m * 2 ^ j) * ulp x\<bar> < overflowBound" by (simp only: y)
  from round64_eq [OF r this] show ?thesis by (simp only: y)
qed

lemma round64_int:
  assumes "\<bar>m\<bar> < 2 ^ 53"
  shows "round64 (of_int m) = Fin (of_int m)"
  using round64_exact [of "of_int m" m 0] assms by simp

lemma round64_grid:
  assumes "round64 x = Fin y"
  shows "\<exists>i :: int. y = of_int i * 2 powi (- 1074)"
proof -
  define g :: real where "g = 2 powi (- 1074)"
  define r where "r = roundEven (x / ulp x)"
  from assms have y: "y = of_int r * ulp x"
    by (auto simp: round64_def Let_def r_def split: if_splits)
  from binade_lower [of x] have "0 \<le> binade x - 52 + 1074" by simp
  then obtain j :: nat where "binade x - 52 + 1074 = int j"
    using zero_le_imp_eq_int by blast
  then have j: "binade x - 52 = - 1074 + int j" by simp
  have "(2::real) powi (- 1074 + int j) = 2 powi (- 1074) * 2 powi (int j)"
    by (rule two_powi_add [symmetric])
  then have "ulp x = g * 2 ^ j"
    unfolding ulp_def j g_def by (simp only: power_int_of_nat)
  with y have "y = of_int (r * 2 ^ j) * g"
    by (simp only: of_int_mult of_int_power of_int_numeral mult_ac)
  then show ?thesis unfolding g_def by blast
qed

lemma ulp_le:
  assumes "2 powi (- 1074) \<le> x"
  shows "ulp x \<le> x"
proof -
  have pos: "0 < x" using assms zero_less_power_int [of "2::real" "- 1074"] by linarith
  show ?thesis
  proof (cases "- 1022 \<le> \<lfloor>log 2 \<bar>x\<bar>\<rfloor>")
    case True
    then have "binade x = \<lfloor>log 2 x\<rfloor>" using pos by (simp add: binade_def)
    then have "ulp x = 2 powi (\<lfloor>log 2 x\<rfloor> - 52)" by (simp add: ulp_def)
    also have "\<dots> \<le> 2 powi \<lfloor>log 2 x\<rfloor>"
      by (intro power_int_increasing) simp_all
    also have "\<dots> = 2 powr (of_int \<lfloor>log 2 x\<rfloor>)"
      using powr_real_of_int' [of "2::real" "\<lfloor>log 2 x\<rfloor>"] by simp
    also have "\<dots> \<le> 2 powr (log 2 x)"
      by (intro powr_mono) simp_all
    also have "\<dots> = x" using pos by simp
    finally show ?thesis .
  next
    case False
    then have "binade x = - 1022" by (simp add: binade_def)
    then have "ulp x = 2 powi (- 1074)" by (simp add: ulp_def)
    with assms show ?thesis by simp
  qed
qed

lemma round64_positive:
  assumes "2 powi (- 1074) \<le> x"
  shows "(\<exists>y. 0 < y \<and> round64 x = Fin y) \<or> round64 x = PosInf"
proof -
  have "1 \<le> x / ulp x" using ulp_le [OF assms] by simp
  then have "1 \<le> \<lfloor>x / ulp x\<rfloor>" by simp
  with roundEven_ge_floor [of "x / ulp x"] have "1 \<le> roundEven (x / ulp x)" by linarith
  then have "1 \<le> real_of_int (roundEven (x / ulp x))" by linarith
  then have "0 < of_int (roundEven (x / ulp x)) * ulp x"
    by (intro mult_pos_pos) simp_all
  then show ?thesis
    using overflowBound_pos by (auto simp: round64_def Let_def)
qed

lemma round64_negative:
  assumes "x \<le> - (2 powi (- 1074))"
  shows "(\<exists>y. y < 0 \<and> round64 x = Fin y) \<or> round64 x = NegInf"
proof -
  from assms have "2 powi (- 1074) \<le> - x" by simp
  from round64_positive [OF this] show ?thesis
    by (auto simp: round64_minus split: jsnum.splits)
qed

section \<open>Query classification and routing\<close>

lemma keyword_detected:
  "keyword \<in> set computationKeywords \<Longrightarrow> includes_str (toLowerCase query) keyword \<Longrightarrow>
   detectComputationalQuery query"
  unfolding detectComputationalQuery_def list_ex_iff by blast

lemma wheatQuery_lower:
  "toLowerCase wheatQuery = ''what are the best practices for wheat cultivation?''"
  by (simp add: wheatQuery_def toLowerCase_def lowerChar_def char_of_eq_iff)

lemma wheatQuery_conversational: "\<not> detectComputationalQuery wheatQuery"
  unfolding detectComputationalQuery_def wheatQuery_lower computationKeywords_def
  by simp

lemma riceQuery_lower:
  "toLowerCase riceQuery = ''what is the total rice production in punjab from 2020 to 2022?''"
  by (simp add: riceQuery_def toLowerCase_def lowerChar_def char_of_eq_iff)

lemma riceQuery_computational: "detectComputationalQuery riceQuery"
  unfolding detectComputationalQuery_def riceQuery_lower computationKeywords_def
  by simp

text \<open>
  C10. A query whose lower-cased text contains "from" or "till" is classified as
  computational, and \<open>processQuery\<close> answers it with the result of the computational
  branch, whatever the query is otherwise about.
\<close>

theorem from_till_is_computational:
  assumes "includes_str (toLowerCase query) ''from'' \<or> includes_str (toLowerCase query) ''till''"
  shows "detectComputationalQuery query \<and>
         processQuery env query model language =
           (map_option Inr (fst (handleComputationalQuery env query)),
            snd (handleComputationalQuery env query))"
proof -
  have "''from'' \<in> set computationKeywords" "''till'' \<in> set computationKeywords"
    by (simp_all add: computationKeywords_def)
  with assms have d: "detectComputationalQuery query"
    using keyword_detected by blast
  then show ?thesis
    by (simp add: processQuery_def split: prod.splits)
qed

lemma origin_lower:
  "toLowerCase ''Where does wheat come from?'' = ''where does wheat come from?''"
  by (simp add: toLowerCase_def lowerChar_def char_of_eq_iff)

theorem from_till_is_computational_witness:
  "includes_str (toLowerCase ''Where does wheat come from?'') ''from'' \<and>
   detectComputationalQuery ''Where does wheat come from?'' \<and>
   fst (processQuery offlineEnv ''Where does wheat come from?'' ''google/gemma-2b-it'' ''english'') =
     Some (Inr \<lparr>answer = ''No CSV datasets available for computation. Please upload agricultural data first.'',
                sources = [], isComputation = True, responseMetadata = None\<rparr>)"
proof -
  have h: "includes_str (toLowerCase ''Where does wheat come from?'') ''from''"
    unfolding origin_lower by simp
  have c: "fst (handleComputationalQuery offlineEnv ''Where does wheat come from?'') =
     Some \<lparr>answer = ''No CSV datasets available for computation. Please upload agricultural data first.'',
           sources = [], isComputation = True, responseMetadata = None\<rparr>"
    by (simp add: handleComputationalQuery_def offlineEnv_def)
  from from_till_is_computational [OF disjI1, OF h, of offlineEnv "''google/gemma-2b-it''" "''english''"]
  show ?thesis using h c by simp
qed

section \<open>The outcomes of processQuery\<close>

lemma handleComputationalQuery_flag:
  "fst (handleComputationalQuery env query) = Some r \<Longrightarrow> isComputation r"
  by (auto simp: handleComputationalQuery_def Let_def split: sum.splits prod.splits option.splits if_splits)

lemma loadAll_settles:
  "\<forall>d \<in> set datasets. loadCsvData env (filePath d) \<noteq> None \<Longrightarrow>
   \<exists>rows. fst (loadAll env datasets allCsvData) = Some rows"
proof (induction datasets arbitrary: allCsvData)
  case Nil
  then show ?case by simp
next
  case (Cons d datasets)
  from Cons.prems obtain loaded where l: "loadCsvData env (filePath d) = Some loaded" by auto
  let ?next = "case loaded of Inl e \<Rightarrow> allCsvData
               | Inr csvData \<Rightarrow> if length csvData > maxArguments env then allCsvData
                                else allCsvData @ csvData"
  from Cons.prems have "\<forall>d \<in> set datasets. loadCsvData env (filePath d) \<noteq> None" by simp
  from Cons.IH [OF this, of ?next] obtain rows where
    "fst (loadAll env datasets ?next) = Some rows" by blast
  then show ?case
    by (cases "loadAll env datasets ?next") (simp add: l)
qed

lemma handleComputationalQuery_settles:
  assumes "\<forall>datasets. getAllDatasets env = Inr datasets \<longrightarrow>
             (\<forall>d \<in> set datasets. fileType d = ''csv'' \<and> status d = ''ready'' \<longrightarrow>
                loadCsvData env (filePath d) \<noteq> None)"
  shows "\<exists>r. fst (handleComputationalQuery env query) = Some r"
proof (cases "getAllDatasets env")
  case (Inl e)
  then show ?thesis by (simp add: handleComputationalQuery_def)
next
  case (Inr datasets)
  let ?csv = "filter (\<lambda>d. fileType d = ''csv'' \<and> status d = ''ready'') datasets"
  from assms Inr have "\<forall>d \<in> set ?csv. loadCsvData env (filePath d) \<noteq> None" by simp
  from loadAll_settles [OF this, of "[]"] obtain rows where
    "fst (loadAll env ?csv []) = Some rows" by blast
  then show ?thesis
    using Inr by (cases "loadAll env ?csv []") (simp add: handleComputationalQuery_def Let_def)
qed

lemma handleRAGQuery_embedding_fails:
  "generateEmbedding env query = Inl e \<Longrightarrow>
   fst (handleRAGQuery env query model language) = Inl (Error ''Vector search failed'')"
  by (simp add: handleRAGQuery_def searchSimilarChunks_def)

lemma handleRAGQuery_nothing_retrieved:
  "generateEmbedding env query = Inr v \<Longrightarrow> searchChunksByEmbedding (engineOrder env) (storedChunks env) v 5 = [] \<Longrightarrow>
   handleRAGQuery env query model language =
     (Inr \<lparr>answer = insufficientAnswer, sources = [], isComputation = False,
           responseMetadata = None\<rparr>, [EmbeddingRequest query])"
  by (simp add: handleRAGQuery_def searchSimilarChunks_def)

lemma handleRAGQuery_retrieved:
  assumes "generateEmbedding env query = Inr v"
    and "searchChunksByEmbedding (engineOrder env) (storedChunks env) v 5 = cs" and "cs \<noteq> []"
    and "prompt = createRAGPrompt query (join (newline @ newline) (map chunkContent cs)) language"
  shows "handleRAGQuery env query model language =
     (case generateResponse env prompt model of
        Inl e \<Rightarrow> (Inl e, [EmbeddingRequest query, ModelRequest prompt model])
      | Inr response \<Rightarrow>
          (Inr \<lparr>answer = postProcessResponse response, sources = extractSources cs,
                isComputation = False,
                responseMetadata = Some (RetrievalInfo (length cs) model)\<rparr>,
           [EmbeddingRequest query, ModelRequest prompt model]))"
  using assms by (simp add: handleRAGQuery_def searchSimilarChunks_def Let_def split: sum.splits)

lemma generateResponse_fails_iff:
  "isl (generateResponse env prompt model) \<longleftrightarrow>
   isl (postToModel env prompt model) \<and> apiKey env \<noteq> []"
  by (simp add: generateResponse_def split: sum.splits)

text \<open>
  C8. A conversational query for which the search retrieves no chunk is answered with the
  fixed insufficient-knowledge text, no sources and \<open>isComputation = false\<close>; the only
  collaborator called is the embedding provider, so no request goes to the language model.
\<close>

theorem nothing_retrieved_fixed_answer:
  assumes "\<not> detectComputationalQuery query"
    and "fst (searchSimilarChunks env query 5) = Inr []"
  shows "processQuery env query model language =
           (Some (Inr \<lparr>answer = insufficientAnswer, sources = [], isComputation = False,
                       responseMetadata = None\<rparr>), [EmbeddingRequest query]) \<and>
         (\<forall>prompt m. ModelRequest prompt m \<notin> set (snd (processQuery env query model language)))"
proof -
  from assms(2) obtain v where v: "generateEmbedding env query = Inr v"
    and e: "searchChunksByEmbedding (engineOrder env) (storedChunks env) v 5 = []"
    by (auto simp: searchSimilarChunks_def split: sum.splits)
  have "processQuery env query model language =
           (Some (Inr \<lparr>answer = insufficientAnswer, sources = [], isComputation = False,
                       responseMetadata = None\<rparr>), [EmbeddingRequest query])"
    using assms(1) handleRAGQuery_nothing_retrieved [OF v e]
    by (simp add: processQuery_def)
  then show ?thesis by simp
qed

lemma search_empty_store: "searchChunksByEmbedding engine [] v k = []"
  by (simp add: searchChunksByEmbedding_def js_sort_def consistentComparator_def sliceTo_def)

theorem nothing_retrieved_fixed_answer_witness:
  "\<not> detectComputationalQuery wheatQuery \<and>
   fst (searchSimilarChunks offlineEnv wheatQuery 5) = Inr [] \<and>
   processQuery offlineEnv wheatQuery ''google/gemma-2b-it'' ''english'' =
     (Some (Inr \<lparr>answer = insufficientAnswer, sources = [], isComputation = False,
                 responseMetadata = None\<rparr>), [EmbeddingRequest wheatQuery])"
proof -
  have s: "fst (searchSimilarChunks offlineEnv wheatQuery 5) = Inr []"
    by (simp add: searchSimilarChunks_def offlineEnv_def search_empty_store)
  from nothing_retrieved_fixed_answer [OF wheatQuery_conversational s]
  show ?thesis using wheatQuery_conversational s by blast
qed

text \<open>
  C1, as the code has it. A computational query never makes \<open>processQuery\<close> raise, and
  when every load of a ready CSV dataset's file is settled it gets a response, flagged as a
  computation. A conversational query raises the one error "Failed to process query"
  exactly when the embedding provider fails, or when chunks were retrieved and the request
  to the language model fails while an API key is set; otherwise it gets a response that
  is not flagged.
\<close>

theorem processQuery_outcomes:
  "(detectComputationalQuery query \<longrightarrow>
      (\<forall>e. fst (processQuery env query model language) \<noteq> Some (Inl e)) \<and>
      ((\<forall>datasets. getAllDatasets env = Inr datasets \<longrightarrow>
          (\<forall>d \<in> set datasets. fileType d = ''csv'' \<and> status d = ''ready'' \<longrightarrow>
             loadCsvData env (filePath d) \<noteq> None)) \<longrightarrow>
       (\<exists>r. fst (processQuery env query model language) = Some (Inr r) \<and> isComputation r))) \<and>
   (\<not> detectComputationalQuery query \<longrightarrow>
      (case generateEmbedding env query of
         Inl e \<Rightarrow>
           fst (processQuery env query model language) =
             Some (Inl (Error ''Failed to process query''))
       | Inr v \<Rightarrow>
           (let cs = searchChunksByEmbedding (engineOrder env) (storedChunks env) v 5;
                prompt = createRAGPrompt query (join (newline @ newline) (map chunkContent cs))
                           language
            in if cs \<noteq> [] \<and> isl (postToModel env prompt model) \<and> apiKey env \<noteq> []
               then fst (processQuery env query model language) =
                      Some (Inl (Error ''Failed to process query''))
               else \<exists>r. fst (processQuery env query model language) = Some (Inr r) \<and>
                         \<not> isComputation r)))"
proof (intro conjI impI allI)
  fix e
  assume "detectComputationalQuery query"
  then show "fst (processQuery env query model language) \<noteq> Some (Inl e)"
    by (auto simp: processQuery_def split: prod.splits)
next
  assume d: "detectComputationalQuery query"
    and "\<forall>datasets. getAllDatasets env = Inr datasets \<longrightarrow>
          (\<forall>d \<in> set datasets. fileType d = ''csv'' \<and> status d = ''ready'' \<longrightarrow>
             loadCsvData env (filePath d) \<noteq> None)"
  from handleComputationalQuery_settles [OF this(2), of query] obtain r where
    r: "fst (handleComputationalQuery env query) = Some r" by blast
  from handleComputationalQuery_flag [OF r] have "isComputation r" .
  with d r show "\<exists>r. fst (processQuery env query model language) = Some (Inr r) \<and> isComputation r"
    by (auto simp: processQuery_def split: prod.splits)
next
  assume n: "\<not> detectComputationalQuery query"
  show "case generateEmbedding env query of
         Inl e \<Rightarrow>
           fst (processQuery env query model language) =
             Some (Inl (Error ''Failed to process query''))
       | Inr v \<Rightarrow>
           (let cs = searchChunksByEmbedding (engineOrder env) (storedChunks env) v 5;
                prompt = createRAGPrompt query (join (newline @ newline) (map chunkContent cs))
                           language
            in if cs \<noteq> [] \<and> isl (postToModel env prompt model) \<and> apiKey env \<noteq> []
               then fst (processQuery env query model language) =
                      Some (Inl (Error ''Failed to process query''))
               else \<exists>r. fst (processQuery env query model language) = Some (Inr r) \<and>
                         \<not> isComputation r)"
  proof (cases "generateEmbedding env query")
    case (Inl e)
    then show ?thesis
      using n handleRAGQuery_embedding_fails [OF Inl, of model language]
      by (auto simp: processQuery_def split: prod.splits sum.splits)
  next
    case (Inr v)
    let ?cs = "searchChunksByEmbedding (engineOrder env) (storedChunks env) v 5"
    let ?prompt =
      "createRAGPrompt query (join (newline @ newline) (map chunkContent ?cs)) language"
    show ?thesis
    proof (cases "?cs = []")
      case True
      then show ?thesis
        using n Inr handleRAGQuery_nothing_retrieved [OF Inr, of model language]
        by (simp add: processQuery_def)
    next
      case False
      have h: "handleRAGQuery env query model language =
        (case generateResponse env ?prompt model of
           Inl e \<Rightarrow> (Inl e, [EmbeddingRequest query, ModelRequest ?prompt model])
         | Inr response \<Rightarrow>
             (Inr \<lparr>answer = postProcessResponse response, sources = extractSources ?cs,
                   isComputation = False,
                   responseMetadata = Some (RetrievalInfo (length ?cs) model)\<rparr>,
              [EmbeddingRequest query, ModelRequest ?prompt model]))"
        by (rule handleRAGQuery_retrieved [OF Inr refl False refl])
      show ?thesis
        using n Inr False generateResponse_fails_iff [of env ?prompt model]
        unfolding processQuery_def h Let_def
        by (cases "generateResponse env ?prompt model") auto
    qed
  qed
qed

theorem processQuery_raises_counterexample:
  "fst (processQuery brokenEmbeddingEnv wheatQuery ''google/gemma-2b-it'' ''english'') =
     Some (Inl (Error ''Failed to process query''))"
  using wheatQuery_conversational
  by (simp add: processQuery_def handleRAGQuery_def searchSimilarChunks_def
      brokenEmbeddingEnv_def offlineEnv_def)

theorem processQuery_outcomes_witness:
  "(detectComputationalQuery riceQuery \<and>
    (\<exists>r. fst (processQuery riceEnv riceQuery ''google/gemma-2b-it'' ''english'') = Some (Inr r) \<and>
         isComputation r)) \<and>
   (\<not> detectComputationalQuery wheatQuery \<and>
    (\<exists>r. fst (processQuery indexedEnv wheatQuery ''google/gemma-2b-it'' ''english'') =
           Some (Inr r) \<and> \<not> isComputation r))"
proof -
  have s: "\<forall>datasets. getAllDatasets riceEnv = Inr datasets \<longrightarrow>
          (\<forall>d \<in> set datasets. fileType d = ''csv'' \<and> status d = ''ready'' \<longrightarrow>
             loadCsvData riceEnv (filePath d) \<noteq> None)"
    by (simp add: riceEnv_def offlineEnv_def)
  have a: "\<exists>r. fst (processQuery riceEnv riceQuery ''google/gemma-2b-it'' ''english'') =
                Some (Inr r) \<and> isComputation r"
    using processQuery_outcomes [of riceQuery riceEnv "''google/gemma-2b-it''" "''english''"]
      riceQuery_computational s by blast
  have b: "\<exists>r. fst (processQuery indexedEnv wheatQuery ''google/gemma-2b-it'' ''english'') =
                Some (Inr r) \<and> \<not> isComputation r"
    using processQuery_outcomes [of wheatQuery indexedEnv "''google/gemma-2b-it''" "''english''"]
      wheatQuery_conversational
    by (simp add: indexedEnv_def Let_def)
  from a b riceQuery_computational wheatQuery_conversational show ?thesis by blast
qed

section \<open>Sources\<close>

lemma indexFrom_absent: "x \<notin> set ys \<Longrightarrow> indexFrom i ys x = - 1"
  by (induction ys arbitrary: i) auto

lemma indexFrom_first:
  "x \<in> set ys \<Longrightarrow>
   \<exists>j < length ys. indexFrom i ys x = i + int j \<and> ys ! j = x \<and> (\<forall>k < j. ys ! k \<noteq> x)"
proof (induction ys arbitrary: i)
  case Nil
  then show ?case by simp
next
  case (Cons y ys)
  show ?case
  proof (cases "y = x")
    case True
    then show ?thesis by (intro exI [of _ 0]) simp
  next
    case False
    with Cons.prems have "x \<in> set ys" by simp
    from Cons.IH [OF this, of "i + 1"] obtain j where j: "j < length ys"
      "indexFrom (i + 1) ys x = i + 1 + int j" "ys ! j = x" "\<forall>k < j. ys ! k \<noteq> x"
      by blast
    have "\<forall>k < Suc j. (y # ys) ! k \<noteq> x"
      using False j(4) by (auto simp: nth_Cons split: nat.splits)
    with j False show ?thesis
      by (intro exI [of _ "Suc j"]) simp
  qed
qed

lemma indexOf_first:
  "x \<in> set arr \<Longrightarrow>
   \<exists>j < length arr. indexOf arr x = int j \<and> arr ! j = x \<and> (\<forall>k < j. arr ! k \<noteq> x)"
  using indexFrom_first [of x arr 0] by (simp add: indexOf_def)

lemma indexOf_nth: "indexOf arr x = int j \<Longrightarrow> j < length arr \<and> arr ! j = x"
proof (cases "x \<in> set arr")
  case True
  assume "indexOf arr x = int j"
  with indexOf_first [OF True] show ?thesis by auto
next
  case False
  assume "indexOf arr x = int j"
  with indexFrom_absent [OF False, of 0] show ?thesis by (simp add: indexOf_def)
qed

lemma zip_upt_nth: "zip xs [0..<length xs] = map (\<lambda>i. (xs ! i, i)) [0..<length xs]"
  by (rule nth_equalityI) simp_all

lemma removeDuplicates_nth:
  "removeDuplicates arr =
     map (\<lambda>i. arr ! i) (filter (\<lambda>i. indexOf arr (arr ! i) = int i) [0..<length arr])"
  by (simp add: removeDuplicates_def zip_upt_nth filter_map comp_def)

lemma removeDuplicates_indices:
  "map (indexOf arr) (removeDuplicates arr) =
     map int (filter (\<lambda>i. indexOf arr (arr ! i) = int i) [0..<length arr])"
  by (simp add: removeDuplicates_nth)

lemma removeDuplicates_first_seen:
  "sorted_wrt (\<lambda>s t. indexOf arr s < indexOf arr t) (removeDuplicates arr)"
proof -
  have "sorted_wrt (<) (filter (\<lambda>i. indexOf arr (arr ! i) = int i) [0..<length arr])"
    by (rule sorted_wrt_filter) (simp add: sorted_wrt_upt)
  then have "sorted_wrt (<) (map int (filter (\<lambda>i. indexOf arr (arr ! i) = int i) [0..<length arr]))"
    by (simp add: sorted_wrt_map)
  then have "sorted_wrt (<) (map (indexOf arr) (removeDuplicates arr))"
    by (simp only: removeDuplicates_indices)
  then show ?thesis by (simp add: sorted_wrt_map)
qed

lemma removeDuplicates_distinct: "distinct (removeDuplicates arr)"
proof -
  have "distinct (map int (filter (\<lambda>i. indexOf arr (arr ! i) = int i) [0..<length arr]))"
    by (simp add: distinct_map)
  then have "distinct (map (indexOf arr) (removeDuplicates arr))"
    by (simp only: removeDuplicates_indices)
  then show ?thesis by (simp add: distinct_map)
qed

lemma removeDuplicates_set: "set (removeDuplicates arr) = set arr"
proof
  show "set (removeDuplicates arr) \<subseteq> set arr"
    by (auto simp: removeDuplicates_nth)
next
  show "set arr \<subseteq> set (removeDuplicates arr)"
  proof
    fix x assume "x \<in> set arr"
    from indexOf_first [OF this] obtain j where "j < length arr" "indexOf arr x = int j" "arr ! j = x"
      by blast
    then show "x \<in> set (removeDuplicates arr)"
      by (auto simp: removeDuplicates_nth intro!: image_eqI [of _ _ j])
  qed
qed

lemma removeDuplicates_subseq: "subseq (removeDuplicates arr) arr"
proof -
  have "subseq (map (\<lambda>i. arr ! i) (filter (\<lambda>i. indexOf arr (arr ! i) = int i) [0..<length arr]))
          (map (\<lambda>i. arr ! i) [0..<length arr])"
    by (rule subseq_map) (rule subseq_filter_left)
  then show ?thesis by (simp add: removeDuplicates_nth map_nth)
qed

lemma handleRAGQuery_sources:
  assumes "generateEmbedding env query = Inr v"
    and "fst (handleRAGQuery env query model language) = Inr r"
  shows "sources r = extractSources (searchChunksByEmbedding (engineOrder env) (storedChunks env) v 5)"
  using assms
  by (auto simp: handleRAGQuery_def searchSimilarChunks_def Let_def extractSources_def
      removeDuplicates_def split: sum.splits if_splits)

text \<open>
  C9. The sources of a conversational answer are the labels of the retrieved chunks with
  every repetition after the first removed: no label occurs twice, every label of a
  retrieved chunk occurs, and the labels stand in the order of their first occurrence in
  the retrieval order. The label of a chunk is its metadata's file name when that is
  present (a non-empty string), else "CSV Dataset" for the types csv_summary and csv_row,
  else its metadata's type when present, else "Unknown source".
\<close>

theorem sources_first_seen:
  "(\<forall>env query model language v r.
      generateEmbedding env query = Inr v \<and>
      fst (handleRAGQuery env query model language) = Inr r \<longrightarrow>
      sources r = extractSources (searchChunksByEmbedding (engineOrder env) (storedChunks env) v 5)) \<and>
   distinct (extractSources cs) \<and>
   set (extractSources cs) = set (map sourceOf cs) \<and>
   subseq (extractSources cs) (map sourceOf cs) \<and>
   sorted_wrt (\<lambda>s t. indexOf (map sourceOf cs) s < indexOf (map sourceOf cs) t)
     (extractSources cs) \<and>
   (truthy (fileNameOf c) \<longrightarrow> sourceOf c = the (fileNameOf c)) \<and>
   (\<not> truthy (fileNameOf c) \<and> typeOf c \<in> {Some ''csv_summary'', Some ''csv_row''} \<longrightarrow>
      sourceOf c = ''CSV Dataset'') \<and>
   (\<not> truthy (fileNameOf c) \<and> typeOf c \<notin> {Some ''csv_summary'', Some ''csv_row''} \<and>
    truthy (typeOf c) \<longrightarrow> sourceOf c = the (typeOf c)) \<and>
   (\<not> truthy (fileNameOf c) \<and> \<not> truthy (typeOf c) \<longrightarrow> sourceOf c = ''Unknown source'')"
proof -
  have link: "\<forall>env query model language v r.
      generateEmbedding env query = Inr v \<and>
      fst (handleRAGQuery env query model language) = Inr r \<longrightarrow>
      sources r = extractSources (searchChunksByEmbedding (engineOrder env) (storedChunks env) v 5)"
    using handleRAGQuery_sources by blast
  have label: "(truthy (fileNameOf c) \<longrightarrow> sourceOf c = the (fileNameOf c)) \<and>
   (\<not> truthy (fileNameOf c) \<and> typeOf c \<in> {Some ''csv_summary'', Some ''csv_row''} \<longrightarrow>
      sourceOf c = ''CSV Dataset'') \<and>
   (\<not> truthy (fileNameOf c) \<and> typeOf c \<notin> {Some ''csv_summary'', Some ''csv_row''} \<and>
    truthy (typeOf c) \<longrightarrow> sourceOf c = the (typeOf c)) \<and>
   (\<not> truthy (fileNameOf c) \<and> \<not> truthy (typeOf c) \<longrightarrow> sourceOf c = ''Unknown source'')"
    by (auto simp: sourceOf_def truthy_def)
  show ?thesis
    unfolding extractSources_def
    using link label removeDuplicates_distinct [of "map sourceOf cs"]
      removeDuplicates_set [of "map sourceOf cs"] removeDuplicates_subseq [of "map sourceOf cs"]
      removeDuplicates_first_seen [of "map sourceOf cs"]
    unfolding extractSources_def by blast
qed

section \<open>processCSV\<close>

lemma rowChunks_length: "length (rowChunks rows) = length rows"
  by (simp add: rowChunks_def)

lemma rowChunks_nth:
  "i < length rows \<Longrightarrow>
   rowChunks rows ! i = \<lparr>content = rowContent (rows ! i), metadata = CsvRow i (rows ! i)\<rparr>"
  by (simp add: rowChunks_def)

theorem processCSV_empty_counterexample:
  "processCSV (Inr []) = Inr []"
  by (simp add: processCSV_def rowChunks_def)

text \<open>
  C5, as the code has it. For a CSV input with \<open>N \<ge> 1\<close> parsed rows \<open>processCSV\<close>
  produces exactly \<open>N + 1\<close> chunks: for each row, in order, one chunk whose content is the
  flattened "column: value, ..." string, then one summary chunk naming the columns of the
  first row and the number of rows. For an input with no rows it produces no chunk at all.
\<close>

theorem processCSV_chunks:
  "\<exists>chunks. processCSV (Inr rows) = Inr chunks \<and>
     length chunks = (if rows = [] then 0 else length rows + 1) \<and>
     (\<forall>i < length rows.
        chunks ! i = \<lparr>content = rowContent (rows ! i), metadata = CsvRow i (rows ! i)\<rparr>) \<and>
     (rows \<noteq> [] \<longrightarrow>
        chunks ! length rows =
          \<lparr>content = ''CSV Dataset with columns: '' @ join '', '' (map fst (hd rows)) @
                     ''. Total rows: '' @ natToString (length rows),
           metadata = CsvSummary (map fst (hd rows)) (length rows)\<rparr>)"
proof (cases "rows = []")
  case True
  then show ?thesis by (simp add: processCSV_def rowChunks_def)
next
  case False
  let ?summary = "\<lparr>content = summaryContent (map fst (hd rows)) (length rows),
                    metadata = CsvSummary (map fst (hd rows)) (length rows)\<rparr>"
  have p: "processCSV (Inr rows) = Inr (rowChunks rows @ [?summary])"
    using False by (cases rows) (simp_all add: processCSV_def Let_def)
  have l: "length (rowChunks rows @ [?summary]) = (if rows = [] then 0 else length rows + 1)"
    using False by (simp add: rowChunks_length)
  have r: "\<forall>i < length rows. (rowChunks rows @ [?summary]) ! i =
          \<lparr>content = rowContent (rows ! i), metadata = CsvRow i (rows ! i)\<rparr>"
    by (simp add: nth_append rowChunks_length rowChunks_nth)
  have s: "rows \<noteq> [] \<longrightarrow> (rowChunks rows @ [?summary]) ! length rows =
          \<lparr>content = ''CSV Dataset with columns: '' @ join '', '' (map fst (hd rows)) @
                     ''. Total rows: '' @ natToString (length rows),
           metadata = CsvSummary (map fst (hd rows)) (length rows)\<rparr>"
    unfolding summaryContent_def by (simp only: nth_append_length rowChunks_length [symmetric]) simp
  from p l r s show ?thesis by blast
qed

theorem processCSV_chunks_witness:
  "\<exists>chunks. processCSV (Inr [riceRow]) = Inr chunks \<and> length chunks = 2 \<and>
     chunks ! 0 = \<lparr>content = ''2020: 100, 2021: 120, crop: rice, state: punjab'',
                   metadata = CsvRow 0 riceRow\<rparr> \<and>
     chunks ! 1 =
       \<lparr>content = ''CSV Dataset with columns: 2020, 2021, crop, state. Total rows: 1'',
        metadata = CsvSummary [''2020'', ''2021'', ''crop'', ''state''] 1\<rparr>"
proof -
  from processCSV_chunks [of "[riceRow]"] obtain chunks where
    c1: "processCSV (Inr [riceRow]) = Inr chunks" and
    c2: "length chunks = (if [riceRow] = [] then 0 else length [riceRow] + 1)" and
    c3: "\<forall>i < length [riceRow].
           chunks ! i = \<lparr>content = rowContent ([riceRow] ! i), metadata = CsvRow i ([riceRow] ! i)\<rparr>" and
    c4: "[riceRow] \<noteq> [] \<longrightarrow>
        chunks ! length [riceRow] =
          \<lparr>content = ''CSV Dataset with columns: '' @ join '', '' (map fst (hd [riceRow])) @
                     ''. Total rows: '' @ natToString (length [riceRow]),
           metadata = CsvSummary (map fst (hd [riceRow])) (length [riceRow])\<rparr>"
    by blast
  have r: "rowContent riceRow = ''2020: 100, 2021: 120, crop: rice, state: punjab''"
    by (simp add: rowContent_def riceRow_def)
  have m: "map fst riceRow = [''2020'', ''2021'', ''crop'', ''state'']"
    by (simp add: riceRow_def)
  have l: "length chunks = 2" using c2 by simp
  have z: "chunks ! 0 = \<lparr>content = ''2020: 100, 2021: 120, crop: rice, state: punjab'',
                   metadata = CsvRow 0 riceRow\<rparr>"
    using c3 r by simp
  have o: "chunks ! 1 =
       \<lparr>content = ''CSV Dataset with columns: 2020, 2021, crop, state. Total rows: 1'',
        metadata = CsvSummary [''2020'', ''2021'', ''crop'', ''state''] 1\<rparr>"
    using c4 by (simp add: m digitChar_def)
  from c1 l z o show ?thesis by blast
qed

section \<open>Cosine similarity\<close>

lemma js_mul_commute: "js_mul x y = js_mul y x"
  by (cases x; cases y) (simp_all add: mult.commute)

lemma foldl_products_commute:
  "length a = length b \<Longrightarrow>
   foldl (\<lambda>sum (ai, bi). js_add sum (js_mul ai bi)) c (zip a b) =
   foldl (\<lambda>sum (ai, bi). js_add sum (js_mul ai bi)) c (zip b a)"
proof (induction a b arbitrary: c rule: list_induct2)
  case Nil
  then show ?case by simp
next
  case (Cons x xs y ys)
  then show ?case by (simp add: js_mul_commute [of x y])
qed

lemma dotProduct_commute: "length a = length b \<Longrightarrow> dotProduct a b = dotProduct b a"
  by (simp add: dotProduct_def foldl_products_commute)

lemma cosineSimilarity_symmetric:
  "length a = length b \<Longrightarrow> cosineSimilarity a b = cosineSimilarity b a"
  by (simp add: cosineSimilarity_def dotProduct_commute js_mul_commute [of "magnitude a"])

lemma js_mul_zero_left: "js_mul (Fin 0) y = Fin 0 \<or> js_mul (Fin 0) y = NaN"
  by (cases y) simp_all

lemma js_mul_zero_right: "js_mul x (Fin 0) = Fin 0 \<or> js_mul x (Fin 0) = NaN"
  using js_mul_zero_left [of x] by (simp add: js_mul_commute [of x])

lemma js_div_by_zero: "d = Fin 0 \<or> d = NaN \<Longrightarrow> js_div n d \<in> {NaN, PosInf, NegInf}"
  by (cases n; elim disjE) simp_all

lemma cosineSimilarity_zero_magnitude:
  assumes "magnitude a = Fin 0 \<or> magnitude b = Fin 0"
  shows "cosineSimilarity a b \<in> {NaN, PosInf, NegInf}"
proof -
  have "js_mul (magnitude a) (magnitude b) = Fin 0 \<or> js_mul (magnitude a) (magnitude b) = NaN"
    using assms js_mul_zero_left [of "magnitude b"] js_mul_zero_right [of "magnitude a"]
    by auto
  from js_div_by_zero [OF this] show ?thesis
    by (simp add: cosineSimilarity_def)
qed

lemma js_add_zero_nan:
  "x = Fin 0 \<or> x = NaN \<Longrightarrow> y = Fin 0 \<or> y = NaN \<Longrightarrow> js_add x y = Fin 0 \<or> js_add x y = NaN"
  by auto

lemma foldl_zero_products:
  assumes "\<forall>p \<in> set ps. fst p = Fin 0 \<or> snd p = Fin 0 \<or> snd p = NaN"
    and "c = Fin 0 \<or> c = NaN"
  shows "foldl (\<lambda>sum (ai, bi). js_add sum (js_mul ai bi)) c ps = Fin 0 \<or>
         foldl (\<lambda>sum (ai, bi). js_add sum (js_mul ai bi)) c ps = NaN"
  using assms
proof (induction ps arbitrary: c)
  case Nil
  then show ?case by simp
next
  case (Cons p ps)
  obtain x y where p: "p = (x, y)" by (cases p)
  from Cons.prems(1) p have "x = Fin 0 \<or> y = Fin 0 \<or> y = NaN" by simp
  then have "js_mul x y = Fin 0 \<or> js_mul x y = NaN"
    using js_mul_zero_left [of y] js_mul_zero_right [of x] by (cases x) auto
  from js_add_zero_nan [OF Cons.prems(2) this]
  have c: "js_add c (js_mul x y) = Fin 0 \<or> js_add c (js_mul x y) = NaN" .
  from Cons.prems(1) have "\<forall>p \<in> set ps. fst p = Fin 0 \<or> snd p = Fin 0 \<or> snd p = NaN" by simp
  from Cons.IH [OF this c] show ?case by (simp add: p)
qed

lemma dotProduct_zero_left:
  assumes "\<forall>x \<in> set a. x = Fin 0"
  shows "dotProduct a b = Fin 0 \<or> dotProduct a b = NaN"
  unfolding dotProduct_def
proof (rule foldl_zero_products)
  show "\<forall>p \<in> set (zip a (b @ replicate (length a - length b) NaN)).
          fst p = Fin 0 \<or> snd p = Fin 0 \<or> snd p = NaN"
    using assms by (auto dest: set_zip_leftD)
qed simp

lemma dotProduct_zero_right:
  assumes "\<forall>x \<in> set b. x = Fin 0"
  shows "dotProduct a b = Fin 0 \<or> dotProduct a b = NaN"
  unfolding dotProduct_def
proof (rule foldl_zero_products)
  show "\<forall>p \<in> set (zip a (b @ replicate (length a - length b) NaN)).
          fst p = Fin 0 \<or> snd p = Fin 0 \<or> snd p = NaN"
  proof
    fix p
    assume "p \<in> set (zip a (b @ replicate (length a - length b) NaN))"
    then have "snd p \<in> set (b @ replicate (length a - length b) NaN)"
      by (metis set_zip_rightD prod.collapse)
    with assms show "fst p = Fin 0 \<or> snd p = Fin 0 \<or> snd p = NaN" by auto
  qed
qed simp

lemma foldl_zero_squares:
  "\<forall>x \<in> set a. x = Fin 0 \<Longrightarrow>
   foldl (\<lambda>sum ai. js_add sum (js_mul ai ai)) (Fin 0) a = Fin 0"
  by (induction a) simp_all

lemma magnitude_zero_vector: "\<forall>x \<in> set a. x = Fin 0 \<Longrightarrow> magnitude a = Fin 0"
  by (simp add: magnitude_def foldl_zero_squares)

lemma js_div_zero_nan: "n = Fin 0 \<or> n = NaN \<Longrightarrow> d = Fin 0 \<or> d = NaN \<Longrightarrow> js_div n d = NaN"
  by auto

lemma cosineSimilarity_zero_vector:
  assumes "(\<forall>x \<in> set a. x = Fin 0) \<or> (\<forall>x \<in> set b. x = Fin 0)"
  shows "cosineSimilarity a b = NaN"
proof -
  have n: "dotProduct a b = Fin 0 \<or> dotProduct a b = NaN"
    using assms dotProduct_zero_left [of a b] dotProduct_zero_right [of b a] by blast
  have "magnitude a = Fin 0 \<or> magnitude b = Fin 0"
    using assms magnitude_zero_vector [of a] magnitude_zero_vector [of b] by blast
  then have d: "js_mul (magnitude a) (magnitude b) = Fin 0 \<or>
                js_mul (magnitude a) (magnitude b) = NaN"
    using js_mul_zero_left [of "magnitude b"] js_mul_zero_right [of "magnitude a"] by auto
  from js_div_zero_nan [OF n d] show ?thesis
    by (simp add: cosineSimilarity_def)
qed

subsection \<open>The vector (1, 1) against itself\<close>

lemma round64_one: "round64 1 = Fin 1"
  using round64_int [of 1] by simp

lemma round64_two: "round64 2 = Fin 2"
  using round64_int [of 2] by simp

lemma sqrt_two_lower: "12738103345051545 / 9007199254740992 < sqrt 2"
  by (rule real_less_rsqrt) (simp add: power2_eq_square)

lemma sqrt_two_upper: "sqrt 2 < 12738103345051547 / 9007199254740992"
  by (rule real_less_lsqrt) (simp_all add: power2_eq_square)

lemma round64_sqrt_two: "round64 (sqrt 2) = Fin (6369051672525773 / 4503599627370496)"
proof -
  have e: "sqrt 2 / 2 powi (0 - 52) = sqrt 2 * 4503599627370496"
    by (simp add: power_int_minus)
  have lo: "6369051672525773 - 1 / 2 < sqrt 2 * 4503599627370496"
    using sqrt_two_lower by simp
  have hi: "sqrt 2 * 4503599627370496 < 6369051672525773 + 1 / 2"
    using sqrt_two_upper by simp
  have a: "\<bar>sqrt 2 / 2 powi (0 - 52) - of_int 6369051672525773\<bar> < 1 / 2"
    unfolding e using lo hi by (simp only: abs_less_iff of_int_numeral) linarith
  have "round64 (sqrt 2) = Fin (of_int 6369051672525773 * 2 powi (0 - 52))"
    using sqrt_two_lower sqrt_two_upper
    by (intro round64_nearest [OF _ _ _ _ a]) (simp_all add: abs_less_iff)
  then show ?thesis by (simp add: power_int_minus)
qed

lemma round64_square:
  "round64 (6369051672525773 / 4503599627370496 * (6369051672525773 / 4503599627370496)) =
     Fin (4503599627370497 / 2251799813685248)"
proof -
  let ?x = "6369051672525773 / 4503599627370496 * (6369051672525773 / 4503599627370496) :: real"
  have a: "\<bar>?x / 2 powi (1 - 52) - of_int 4503599627370497\<bar> < 1 / 2"
    by (simp add: power_int_minus abs_less_iff)
  have "round64 ?x = Fin (of_int 4503599627370497 * 2 powi (1 - 52))"
    by (intro round64_nearest [OF _ _ _ _ a]) (simp_all add: abs_less_iff)
  then show ?thesis by (simp add: power_int_minus)
qed

lemma round64_quotient:
  "round64 (2 / (4503599627370497 / 2251799813685248)) =
     Fin (4503599627370495 / 4503599627370496)"
proof -
  let ?x = "2 / (4503599627370497 / 2251799813685248) :: real"
  have a: "\<bar>?x / 2 powi (- 1 - 52) - of_int 9007199254740990\<bar> < 1 / 2"
    by (simp add: power_int_minus abs_less_iff)
  have "round64 ?x = Fin (of_int 9007199254740990 * 2 powi (- 1 - 52))"
    by (intro round64_nearest [OF _ _ _ _ a]) (simp_all add: abs_less_iff power_int_minus)
  then show ?thesis by (simp add: power_int_minus)
qed

lemma magnitude_ones: "magnitude [Fin 1, Fin 1] = Fin (6369051672525773 / 4503599627370496)"
  by (simp add: magnitude_def round64_one round64_two round64_sqrt_two)

lemma dotProduct_ones: "dotProduct [Fin 1, Fin 1] [Fin 1, Fin 1] = Fin 2"
  by (simp add: dotProduct_def round64_one round64_two)

lemma cosineSimilarity_ones:
  "cosineSimilarity [Fin 1, Fin 1] [Fin 1, Fin 1] = Fin (4503599627370495 / 4503599627370496)"
proof -
  have "js_mul (magnitude [Fin 1, Fin 1]) (magnitude [Fin 1, Fin 1]) =
          Fin (4503599627370497 / 2251799813685248)"
    by (simp only: magnitude_ones js_mul.simps round64_square)
  moreover have "js_div (Fin 2) (Fin (4503599627370497 / 2251799813685248)) =
                   round64 (2 / (4503599627370497 / 2251799813685248))"
    by simp
  ultimately show ?thesis
    by (simp only: cosineSimilarity_def Let_def dotProduct_ones round64_quotient)
qed

text \<open>
  C3, as the code has it. On vectors of equal length the similarity is symmetric. There is
  no guard for a zero magnitude: when either computed magnitude is zero the result is a
  division by zero, hence NaN or an infinity and never 0, and when all entries of either
  vector are zero it is NaN. A vector paired with itself does not always give 1: the
  result is the rounded quotient of rounded sums, which for \<open>(1, 1)\<close> is the double just
  below 1.
\<close>

theorem cosineSimilarity_properties:
  "(length a = length b \<longrightarrow> cosineSimilarity a b = cosineSimilarity b a) \<and>
   (magnitude a = Fin 0 \<or> magnitude b = Fin 0 \<longrightarrow>
      cosineSimilarity a b \<in> {NaN, PosInf, NegInf}) \<and>
   ((\<forall>x \<in> set a. x = Fin 0) \<or> (\<forall>x \<in> set b. x = Fin 0) \<longrightarrow> cosineSimilarity a b = NaN) \<and>
   cosineSimilarity [Fin 1, Fin 1] [Fin 1, Fin 1] = Fin (1 - 1 / 2 ^ 52)"
proof -
  have "cosineSimilarity [Fin 1, Fin 1] [Fin 1, Fin 1] = Fin (1 - 1 / 2 ^ 52)"
    by (simp add: cosineSimilarity_ones)
  then show ?thesis
    using cosineSimilarity_symmetric [of a b] cosineSimilarity_zero_magnitude [of a b]
      cosineSimilarity_zero_vector [of a b]
    by blast
qed

theorem cosineSimilarity_properties_witness:
  "cosineSimilarity [Fin 0, Fin 0] [Fin 1, Fin 0] = cosineSimilarity [Fin 1, Fin 0] [Fin 0, Fin 0] \<and>
   cosineSimilarity [Fin 0, Fin 0] [Fin 1, Fin 0] \<in> {NaN, PosInf, NegInf} \<and>
   cosineSimilarity [Fin 0, Fin 0] [Fin 1, Fin 0] = NaN"
proof -
  have "magnitude [Fin 0, Fin 0] = Fin 0"
    by (simp add: magnitude_def)
  moreover have "length [Fin 0, Fin 0 :: jsnum] = length [Fin 1, Fin 0 :: jsnum]"
    by simp
  moreover have "\<forall>x \<in> set [Fin 0, Fin 0 :: jsnum]. x = Fin 0"
    by simp
  ultimately show ?thesis
    using cosineSimilarity_properties [of "[Fin 0, Fin 0]" "[Fin 1, Fin 0]"] by blast
qed

theorem cosineSimilarity_zero_counterexample:
  "cosineSimilarity [Fin 0, Fin 0] [Fin 1, Fin 0] = NaN \<and>
   cosineSimilarity [Fin 1, Fin 1] [Fin 1, Fin 1] = Fin (1 - 1 / 2 ^ 52)"
proof -
  have "cosineSimilarity [Fin 0, Fin 0] [Fin 1, Fin 0] = NaN"
    by (rule cosineSimilarity_zero_vector) simp
  then show ?thesis
    by (simp add: cosineSimilarity_ones)
qed

section \<open>The search\<close>

subsection \<open>The comparator on finite scores\<close>

lemma js_div_grid:
  assumes "js_div n d = Fin v"
  shows "\<exists>i :: int. v = of_int i * 2 powi (- 1074)"
proof (cases n)
  case (Fin x)
  show ?thesis
  proof (cases d)
    case (Fin y)
    with \<open>n = Fin x\<close> assms have "round64 (x / y) = Fin v"
      by (simp split: if_splits)
    then show ?thesis by (rule round64_grid)
  next
    case PosInf
    with \<open>n = Fin x\<close> assms have "v = of_int 0 * 2 powi (- 1074)" by simp
    then show ?thesis by blast
  next
    case NegInf
    with \<open>n = Fin x\<close> assms have "v = of_int 0 * 2 powi (- 1074)" by simp
    then show ?thesis by blast
  next
    case NaN
    with \<open>n = Fin x\<close> assms show ?thesis by simp
  qed
next
  case PosInf
  with assms show ?thesis by (cases d) (simp_all split: if_splits)
next
  case NegInf
  with assms show ?thesis by (cases d) (simp_all split: if_splits)
next
  case NaN
  with assms show ?thesis by simp
qed

lemma chunkScore_grid:
  assumes "chunkScore q c = Fin v"
  shows "\<exists>i :: int. v = of_int i * 2 powi (- 1074)"
proof (cases "embedding c")
  case None
  with assms show ?thesis by (simp add: chunkScore_def)
next
  case (Some e)
  with assms have "js_div (dotProduct q e) (js_mul (magnitude q) (magnitude e)) = Fin v"
    by (simp add: chunkScore_def cosineSimilarity_def)
  then show ?thesis by (rule js_div_grid)
qed

lemma grid_step:
  fixes i j :: int
  assumes "i < j"
  shows "2 powi (- 1074) \<le> of_int j * 2 powi (- 1074) - of_int i * (2 powi (- 1074) :: real)"
proof -
  define u :: real where "u = 2 powi (- 1074)"
  have u: "0 < u" by (simp add: u_def)
  from assms have "1 \<le> real_of_int (j - i)" by linarith
  with u have "1 * u \<le> real_of_int (j - i) * u"
    by (intro mult_right_mono) simp_all
  then show ?thesis
    unfolding u_def [symmetric] by (simp add: algebra_simps)
qed

lemma sortCompare_scores:
  assumes "snd x = Fin (of_int i * 2 powi (- 1074))" and "snd y = Fin (of_int j * 2 powi (- 1074))"
  shows "sortCompare compareScores x y = Some (if j < i then - 1 else if i < j then 1 else 0)"
proof -
  define u :: real where "u = 2 powi (- 1074)"
  have c: "compareScores x y = round64 (of_int j * u - of_int i * u)"
    using assms by (simp add: compareScores_def js_sub_def u_def)
  consider "j < i" | "i < j" | "i = j" by linarith
  then show ?thesis
  proof cases
    case 1
    from grid_step [OF 1] have "of_int j * u - of_int i * u \<le> - (2 powi (- 1074))"
      by (simp add: u_def)
    from round64_negative [OF this] 1 show ?thesis
      by (auto simp: sortCompare_def c)
  next
    case 2
    from grid_step [OF 2] have "2 powi (- 1074) \<le> of_int j * u - of_int i * u"
      by (simp add: u_def)
    from round64_positive [OF this] 2 show ?thesis
      by (auto simp: sortCompare_def c)
  next
    case 3
    then show ?thesis by (simp add: sortCompare_def c)
  qed
qed

lemma grid_order:
  fixes i j :: int
  shows "of_int i * 2 powi (- 1074) < of_int j * (2 powi (- 1074) :: real) \<longleftrightarrow> i < j"
  by simp

lemma consistent_on_finite:
  assumes "\<forall>z \<in> set xs. \<exists>i :: int. snd z = Fin (of_int i * 2 powi (- 1074))"
  shows "consistentComparator compareScores xs"
proof -
  have "consistentAt compareScores a b c" if "a \<in> set xs" "b \<in> set xs" "c \<in> set xs" for a b c
  proof -
    from assms that obtain i j k :: int where
      "snd a = Fin (of_int i * 2 powi (- 1074))" "snd b = Fin (of_int j * 2 powi (- 1074))"
      "snd c = Fin (of_int k * 2 powi (- 1074))"
      by blast
    then show ?thesis
      by (simp add: consistentAt_def sortCompare_scores [of a i _ j] sortCompare_scores [of b j _ k]
          sortCompare_scores [of a i _ k] sortCompare_scores [of a i _ i]
          sortCompare_scores [of b j _ i])
  qed
  then show ?thesis
    by (simp add: consistentComparator_def list_all_iff)
qed

lemma comesBefore_numbers:
  assumes "snd x = Fin (of_int i * 2 powi (- 1074))" and "snd y = Fin (of_int j * 2 powi (- 1074))"
  shows "comesBefore compareScores x y \<longleftrightarrow> j < i"
  by (simp add: comesBefore_def sortCompare_scores [OF assms])

subsection \<open>Insertion\<close>

lemma insertSorted_set: "set (insertSorted cmp x ys) = insert x (set ys)"
  by (induction ys) auto

lemma insertSorted_length: "length (insertSorted cmp x ys) = Suc (length ys)"
  by (induction ys) auto

lemma insertion_set: "set (foldl (\<lambda>sorted x. insertSorted cmp x sorted) [] xs) = set xs"
  by (induction xs rule: rev_induct) (simp_all add: insertSorted_set)

lemma insertion_length: "length (foldl (\<lambda>sorted x. insertSorted cmp x sorted) [] xs) = length xs"
  by (induction xs rule: rev_induct) (simp_all add: insertSorted_length)

lemma js_ge_grid:
  fixes i j :: int
  shows "js_ge (Fin (of_int i * 2 powi (- 1074))) (Fin (of_int j * 2 powi (- 1074))) \<longleftrightarrow> j \<le> i"
  by simp

lemma insertSorted_sorted:
  assumes "\<forall>z \<in> set (x # ys). \<exists>i :: int. snd z = Fin (of_int i * 2 powi (- 1074))"
    and "sorted_wrt (\<lambda>s t. js_ge (snd s) (snd t)) ys"
  shows "sorted_wrt (\<lambda>s t. js_ge (snd s) (snd t)) (insertSorted compareScores x ys)"
  using assms
proof (induction ys)
  case Nil
  then show ?case by simp
next
  case (Cons y ys)
  from Cons.prems(1) obtain a b :: int where
    ab: "snd x = Fin (of_int a * 2 powi (- 1074))" "snd y = Fin (of_int b * 2 powi (- 1074))"
    by auto
  show ?case
  proof (cases "comesBefore compareScores x y")
    case True
    then have "b < a" using comesBefore_numbers [OF ab] by simp
    moreover have "\<forall>z \<in> set ys. js_ge (snd y) (snd z)" using Cons.prems(2) by simp
    ultimately have "\<forall>z \<in> set (y # ys). js_ge (snd x) (snd z)"
    proof (intro ballI)
      fix z assume z: "z \<in> set (y # ys)"
      with Cons.prems(1) obtain c :: int where c: "snd z = Fin (of_int c * 2 powi (- 1074))"
        by auto
      have "js_ge (snd y) (snd z)"
        using z ab \<open>\<forall>z \<in> set ys. js_ge (snd y) (snd z)\<close> by auto
      then have "c \<le> b" by (simp only: ab c js_ge_grid)
      with \<open>b < a\<close> have "c \<le> a" by simp
      then show "js_ge (snd x) (snd z)" by (simp only: ab c js_ge_grid)
    qed
    with True Cons.prems(2) show ?thesis by simp
  next
    case False
    then have "a \<le> b" using comesBefore_numbers [OF ab] by simp
    then have "js_ge (snd y) (snd x)" by (simp only: ab js_ge_grid)
    moreover have "sorted_wrt (\<lambda>s t. js_ge (snd s) (snd t)) (insertSorted compareScores x ys)"
      using Cons.IH Cons.prems by simp
    ultimately show ?thesis
      using False Cons.prems(2) by (simp add: insertSorted_set)
  qed
qed

lemma grid_eq:
  fixes i j :: int
  shows "Fin (of_int i * 2 powi (- 1074)) = Fin (of_int j * 2 powi (- 1074)) \<longleftrightarrow> i = j"
  by simp

lemma insertSorted_stable:
  assumes "\<forall>z \<in> set (x # ys). \<exists>i :: int. snd z = Fin (of_int i * 2 powi (- 1074))"
    and "sorted_wrt (\<lambda>s t. js_ge (snd s) (snd t)) ys"
  shows "filter (\<lambda>z. snd z = s) (insertSorted compareScores x ys) =
         filter (\<lambda>z. snd z = s) ys @ (if snd x = s then [x] else [])"
  using assms
proof (induction ys)
  case Nil
  then show ?case by simp
next
  case (Cons y ys)
  from Cons.prems(1) obtain a b :: int where
    ab: "snd x = Fin (of_int a * 2 powi (- 1074))" "snd y = Fin (of_int b * 2 powi (- 1074))"
    by auto
  show ?case
  proof (cases "comesBefore compareScores x y")
    case True
    then have lt: "b < a" using comesBefore_numbers [OF ab] by simp
    have below: "\<forall>z \<in> set (y # ys). snd z \<noteq> snd x"
    proof
      fix z assume z: "z \<in> set (y # ys)"
      with Cons.prems(1) obtain c :: int where c: "snd z = Fin (of_int c * 2 powi (- 1074))"
        by auto
      have "z = y \<or> js_ge (snd y) (snd z)" using z Cons.prems(2) by auto
      then have "c \<le> b" using ab c by (auto simp only: js_ge_grid grid_eq)
      with lt have "c \<noteq> a" by simp
      then show "snd z \<noteq> snd x" by (simp only: ab c grid_eq) simp
    qed
    show ?thesis
    proof (cases "snd x = s")
      case True
      with below have "filter (\<lambda>z. snd z = s) (y # ys) = []"
        by (auto simp: filter_empty_conv)
      with True \<open>comesBefore compareScores x y\<close> show ?thesis by simp
    next
      case False
      with \<open>comesBefore compareScores x y\<close> show ?thesis by simp
    qed
  next
    case False
    have "filter (\<lambda>z. snd z = s) (insertSorted compareScores x ys) =
          filter (\<lambda>z. snd z = s) ys @ (if snd x = s then [x] else [])"
      using Cons.IH Cons.prems by simp
    with False show ?thesis by simp
  qed
qed

lemma insertion_sorted_stable:
  assumes "\<forall>z \<in> set xs. \<exists>i :: int. snd z = Fin (of_int i * 2 powi (- 1074))"
  shows "sorted_wrt (\<lambda>s t. js_ge (snd s) (snd t))
           (foldl (\<lambda>sorted x. insertSorted compareScores x sorted) [] xs) \<and>
         filter (\<lambda>z. snd z = s) (foldl (\<lambda>sorted x. insertSorted compareScores x sorted) [] xs) =
           filter (\<lambda>z. snd z = s) xs"
  using assms
proof (induction xs rule: rev_induct)
  case Nil
  then show ?case by simp
next
  case (snoc x xs)
  let ?sorted = "foldl (\<lambda>sorted x. insertSorted compareScores x sorted) [] xs"
  from snoc have ih: "sorted_wrt (\<lambda>s t. js_ge (snd s) (snd t)) ?sorted"
    "filter (\<lambda>z. snd z = s) ?sorted = filter (\<lambda>z. snd z = s) xs"
    by simp_all
  have fin: "\<forall>z \<in> set (x # ?sorted). \<exists>i :: int. snd z = Fin (of_int i * 2 powi (- 1074))"
    using snoc.prems by (simp add: insertion_set)
  show ?case
    using insertSorted_sorted [OF fin ih(1)] insertSorted_stable [OF fin ih(1), of s] ih(2)
    by simp
qed

lemma js_sort_finite:
  assumes "\<forall>z \<in> set xs. \<exists>i :: int. snd z = Fin (of_int i * 2 powi (- 1074))"
  shows "js_sort engine compareScores xs =
           foldl (\<lambda>sorted x. insertSorted compareScores x sorted) [] xs"
  by (simp add: js_sort_def consistent_on_finite [OF assms])

lemma js_sort_subset:
  assumes "\<forall>xs. set (engine xs) \<subseteq> set xs"
  shows "set (js_sort engine cmp xs) \<subseteq> set xs"
  using assms by (simp add: js_sort_def insertion_set)

lemma sliceTo_nonneg: "0 \<le> limit \<Longrightarrow> sliceTo limit xs = take (nat limit) xs"
  by (simp add: sliceTo_def)

lemma search_unfold:
  "0 \<le> limit \<Longrightarrow>
   searchChunksByEmbedding engine chunks q limit =
     map fst (take (nat limit)
       (js_sort engine compareScores
          (map (\<lambda>chunk. (chunk, chunkScore q chunk)) (filter hasEmbedding chunks))))"
  by (simp add: searchChunksByEmbedding_def sliceTo_nonneg)

lemma search_bounded:
  assumes "0 \<le> limit"
  shows "length (searchChunksByEmbedding engine chunks q limit) \<le> nat limit"
  by (simp add: search_unfold [OF assms])

lemma search_members:
  assumes "0 \<le> limit" and "\<forall>xs. set (engine xs) \<subseteq> set xs"
    and "c \<in> set (searchChunksByEmbedding engine chunks q limit)"
  shows "c \<in> set chunks \<and> hasEmbedding c"
proof -
  let ?scored = "map (\<lambda>chunk. (chunk, chunkScore q chunk)) (filter hasEmbedding chunks)"
  from assms(3) obtain p where
    p: "p \<in> set (take (nat limit) (js_sort engine compareScores ?scored))" and c: "c = fst p"
    by (auto simp: search_unfold [OF assms(1)])
  from p have "p \<in> set (js_sort engine compareScores ?scored)" by (rule in_set_takeD)
  with js_sort_subset [OF assms(2), of compareScores ?scored] have "p \<in> set ?scored" by blast
  with c show ?thesis by auto
qed

lemma scores_on_grid:
  assumes "\<forall>c \<in> set chunks. hasEmbedding c \<longrightarrow> (\<exists>v. chunkScore q c = Fin v)"
  shows "\<forall>z \<in> set (map (\<lambda>chunk. (chunk, chunkScore q chunk)) (filter hasEmbedding chunks)).
           \<exists>i :: int. snd z = Fin (of_int i * 2 powi (- 1074))"
proof
  fix z assume "z \<in> set (map (\<lambda>chunk. (chunk, chunkScore q chunk)) (filter hasEmbedding chunks))"
  then obtain c where c: "c \<in> set chunks" "hasEmbedding c" and z: "z = (c, chunkScore q c)"
    by auto
  with assms obtain v where v: "chunkScore q c = Fin v" by blast
  from chunkScore_grid [OF v] obtain i :: int where "v = of_int i * 2 powi (- 1074)" by blast
  with v z show "\<exists>i :: int. snd z = Fin (of_int i * 2 powi (- 1074))" by auto
qed

lemma search_ordered:
  assumes "0 \<le> limit"
    and "\<forall>c \<in> set chunks. hasEmbedding c \<longrightarrow> (\<exists>v. chunkScore q c = Fin v)"
  shows "sorted_wrt (\<lambda>c d. js_ge (chunkScore q c) (chunkScore q d))
           (searchChunksByEmbedding engine chunks q limit)"
    and "prefix (filter (\<lambda>c. chunkScore q c = s) (searchChunksByEmbedding engine chunks q limit))
           (filter (\<lambda>c. chunkScore q c = s) (filter hasEmbedding chunks))"
proof -
  let ?scored = "map (\<lambda>chunk. (chunk, chunkScore q chunk)) (filter hasEmbedding chunks)"
  let ?sorted = "foldl (\<lambda>sorted x. insertSorted compareScores x sorted) [] ?scored"
  note fin = scores_on_grid [OF assms(2)]
  note ss = insertion_sorted_stable [OF fin, of s]
  have unfold: "searchChunksByEmbedding engine chunks q limit = map fst (take (nat limit) ?sorted)"
    by (simp only: search_unfold [OF assms(1)] js_sort_finite [OF fin])
  have pair: "\<forall>z \<in> set ?sorted. snd z = chunkScore q (fst z)"
    by (auto simp: insertion_set)
  have "sorted_wrt (\<lambda>s t. js_ge (snd s) (snd t)) (take (nat limit) ?sorted)"
    using ss by (simp add: sorted_wrt_take)
  then have "sorted_wrt (\<lambda>s t. js_ge (chunkScore q (fst s)) (chunkScore q (fst t)))
               (take (nat limit) ?sorted)"
  proof (rule sorted_wrt_mono_rel [rotated])
    fix s t assume "s \<in> set (take (nat limit) ?sorted)" "t \<in> set (take (nat limit) ?sorted)"
      "js_ge (snd s) (snd t)"
    moreover from this have "s \<in> set ?sorted" "t \<in> set ?sorted" by (auto dest: in_set_takeD)
    ultimately show "js_ge (chunkScore q (fst s)) (chunkScore q (fst t))"
      using pair by simp
  qed
  then show "sorted_wrt (\<lambda>c d. js_ge (chunkScore q c) (chunkScore q d))
           (searchChunksByEmbedding engine chunks q limit)"
    by (simp add: unfold sorted_wrt_map)
  have same: "filter (\<lambda>z. chunkScore q (fst z) = s) zs = filter (\<lambda>z. snd z = s) zs"
    if "set zs \<subseteq> set ?sorted" for zs
  proof (rule filter_cong [OF refl])
    fix z assume "z \<in> set zs"
    with that have "z \<in> set ?sorted" by blast
    with pair have "snd z = chunkScore q (fst z)" by blast
    then show "(chunkScore q (fst z) = s) = (snd z = s)" by simp
  qed
  have "prefix (filter (\<lambda>z. snd z = s) (take (nat limit) ?sorted)) (filter (\<lambda>z. snd z = s) ?sorted)"
    by (rule filter_mono_prefix) (rule take_is_prefix)
  then have "prefix (filter (\<lambda>z. snd z = s) (take (nat limit) ?sorted)) (filter (\<lambda>z. snd z = s) ?scored)"
    using ss by simp
  then have "prefix (map fst (filter (\<lambda>z. snd z = s) (take (nat limit) ?sorted)))
               (map fst (filter (\<lambda>z. snd z = s) ?scored))"
    by (rule map_mono_prefix)
  moreover have "map fst (filter (\<lambda>z. snd z = s) (take (nat limit) ?sorted)) =
      filter (\<lambda>c. chunkScore q c = s) (searchChunksByEmbedding engine chunks q limit)"
    using same [of "take (nat limit) ?sorted"]
    by (simp add: unfold filter_map comp_def set_take_subset)
  moreover have "map fst (filter (\<lambda>z. snd z = s) ?scored) =
      filter (\<lambda>c. chunkScore q c = s) (filter hasEmbedding chunks)"
    by (simp add: filter_map comp_def)
  ultimately show "prefix (filter (\<lambda>c. chunkScore q c = s) (searchChunksByEmbedding engine chunks q limit))
           (filter (\<lambda>c. chunkScore q c = s) (filter hasEmbedding chunks))"
    by simp
qed

subsection \<open>The sample store\<close>

lemma sample_embeddings:
  "hasEmbedding soilChunk" "hasEmbedding riceChunk" "\<not> hasEmbedding bareChunk"
  "hasEmbedding rowChunk" "hasEmbedding paddyChunk" "hasEmbedding zeroChunk"
  by (simp_all add: hasEmbedding_def soilChunk_def riceChunk_def bareChunk_def rowChunk_def
      paddyChunk_def zeroChunk_def)

lemma round64_small:
  "round64 1 = Fin 1" "round64 2 = Fin 2" "round64 4 = Fin 4" "round64 (- 1) = Fin (- 1)"
  "round64 (- 2) = Fin (- 2)"
  using round64_int [of 1] round64_int [of 2] round64_int [of 4] round64_int [of "- 1"]
    round64_int [of "- 2"]
  by simp_all

lemma sample_scores:
  "chunkScore [Fin 1, Fin 0] soilChunk = Fin 0" "chunkScore [Fin 1, Fin 0] riceChunk = Fin 1"
  "chunkScore [Fin 1, Fin 0] rowChunk = Fin (- 1)" "chunkScore [Fin 1, Fin 0] paddyChunk = Fin 1"
  "chunkScore [Fin 1, Fin 0] zeroChunk = NaN"
  by (simp_all add: chunkScore_def cosineSimilarity_def dotProduct_def magnitude_def round64_small
      soilChunk_def riceChunk_def rowChunk_def paddyChunk_def zeroChunk_def)

lemma sample_finite:
  "\<forall>c \<in> set [soilChunk, riceChunk, bareChunk, rowChunk, paddyChunk].
     hasEmbedding c \<longrightarrow> (\<exists>v. chunkScore [Fin 1, Fin 0] c = Fin v)"
  by (simp add: sample_scores sample_embeddings)

lemma sample_comparisons:
  "comesBefore compareScores (c, Fin 1) (d, Fin 0)"
  "\<not> comesBefore compareScores (c, Fin 0) (d, Fin 1)"
  "\<not> comesBefore compareScores (c, Fin 1) (d, Fin 1)"
  "\<not> comesBefore compareScores (c, Fin (- 1)) (d, Fin 1)"
  "\<not> comesBefore compareScores (c, Fin (- 1)) (d, Fin 0)"
  "comesBefore compareScores (c, Fin 1) (d, Fin (- 1))"
  by (simp_all add: comesBefore_def sortCompare_def compareScores_def js_sub_def round64_small)

lemma search_sample:
  "searchChunksByEmbedding engine [soilChunk, riceChunk, bareChunk, rowChunk, paddyChunk]
     [Fin 1, Fin 0] 5 =
     [riceChunk, paddyChunk, soilChunk, rowChunk]"
proof -
  have "searchChunksByEmbedding engine [soilChunk, riceChunk, bareChunk, rowChunk, paddyChunk]
          [Fin 1, Fin 0] 5 =
        map fst (take 5
          (foldl (\<lambda>sorted x. insertSorted compareScores x sorted) []
             (map (\<lambda>chunk. (chunk, chunkScore [Fin 1, Fin 0] chunk))
                (filter hasEmbedding [soilChunk, riceChunk, bareChunk, rowChunk, paddyChunk]))))"
    by (simp only: search_unfold [of 5, simplified] js_sort_finite [OF scores_on_grid [OF sample_finite]])
  then show ?thesis
    by (simp add: sample_embeddings sample_scores sample_comparisons)
qed

theorem search_unordered_counterexample:
  "searchChunksByEmbedding keepOrder [zeroChunk, riceChunk] [Fin 1, Fin 0] 5 =
     [zeroChunk, riceChunk] \<and>
   \<not> sorted_wrt (\<lambda>c d. js_ge (chunkScore [Fin 1, Fin 0] c) (chunkScore [Fin 1, Fin 0] d))
       (searchChunksByEmbedding keepOrder [zeroChunk, riceChunk] [Fin 1, Fin 0] 5) \<and>
   \<not> sorted_wrt (\<lambda>c d. js_ge (chunkScore [Fin 1, Fin 0] c) (chunkScore [Fin 1, Fin 0] d))
       (searchChunksByEmbedding rev [zeroChunk, riceChunk] [Fin 1, Fin 0] 5) \<and>
   length (searchChunksByEmbedding keepOrder [riceChunk, paddyChunk, rowChunk] [Fin 1, Fin 0] (- 1)) = 2"
proof -
  have n: "\<not> consistentComparator compareScores [(zeroChunk, NaN), (riceChunk, Fin 1)]"
    by (simp add: consistentComparator_def consistentAt_def sortCompare_def compareScores_def
        js_sub_def)
  have a: "searchChunksByEmbedding keepOrder [zeroChunk, riceChunk] [Fin 1, Fin 0] 5 =
             [zeroChunk, riceChunk]"
    by (simp add: searchChunksByEmbedding_def sliceTo_def js_sort_def n keepOrder_def
        sample_embeddings sample_scores)
  have b: "searchChunksByEmbedding rev [zeroChunk, riceChunk] [Fin 1, Fin 0] 5 =
             [riceChunk, zeroChunk]"
    by (simp add: searchChunksByEmbedding_def sliceTo_def js_sort_def n
        sample_embeddings sample_scores)
  have c: "length (searchChunksByEmbedding keepOrder [riceChunk, paddyChunk, rowChunk]
             [Fin 1, Fin 0] (- 1)) = 2"
    by (simp add: searchChunksByEmbedding_def sliceTo_def js_sort_def insertion_length
        keepOrder_def sample_embeddings)
  show ?thesis
    unfolding a b using c by (simp add: sample_scores)
qed

text \<open>
  C4, as the code has it. For a bound \<open>k \<ge> 0\<close> the search returns at most \<open>k\<close> chunks, and
  (the engine's sort returning elements of the array it is given) all of them are stored
  chunks with a non-empty embedding. When the score computed for every stored chunk with
  a non-empty embedding is a finite number, the result is ordered by non-increasing
  computed score, and the returned chunks of any one score are the first stored ones of
  that score, in insertion order. When some score is NaN or infinite, the order is the
  engine's.
\<close>

theorem search_ranked:
  assumes "0 \<le> k"
  shows "length (searchChunksByEmbedding engine chunks q k) \<le> nat k \<and>
         ((\<forall>xs. set (engine xs) \<subseteq> set xs) \<longrightarrow>
          (\<forall>c \<in> set (searchChunksByEmbedding engine chunks q k).
             c \<in> set chunks \<and> embedding c \<noteq> None \<and> embedding c \<noteq> Some [])) \<and>
         ((\<forall>c \<in> set chunks. hasEmbedding c \<longrightarrow> (\<exists>v. chunkScore q c = Fin v)) \<longrightarrow>
          sorted_wrt (\<lambda>c d. js_ge (chunkScore q c) (chunkScore q d))
            (searchChunksByEmbedding engine chunks q k) \<and>
          (\<forall>s. prefix (filter (\<lambda>c. chunkScore q c = s) (searchChunksByEmbedding engine chunks q k))
                  (filter (\<lambda>c. chunkScore q c = s) (filter hasEmbedding chunks))))"
proof (intro conjI ballI impI allI)
  show "length (searchChunksByEmbedding engine chunks q k) \<le> nat k"
    by (rule search_bounded [OF assms])
next
  fix c
  assume e: "\<forall>xs. set (engine xs) \<subseteq> set xs"
    and c: "c \<in> set (searchChunksByEmbedding engine chunks q k)"
  from search_members [OF assms e c] show "c \<in> set chunks" by simp
  from search_members [OF assms e c] show "embedding c \<noteq> None" "embedding c \<noteq> Some []"
    by (auto simp: hasEmbedding_def split: option.splits)
next
  assume h: "\<forall>c \<in> set chunks. hasEmbedding c \<longrightarrow> (\<exists>v. chunkScore q c = Fin v)"
  then show "sorted_wrt (\<lambda>c d. js_ge (chunkScore q c) (chunkScore q d))
            (searchChunksByEmbedding engine chunks q k)"
    by (rule search_ordered(1) [OF assms])
next
  fix s
  assume h: "\<forall>c \<in> set chunks. hasEmbedding c \<longrightarrow> (\<exists>v. chunkScore q c = Fin v)"
  then show "prefix (filter (\<lambda>c. chunkScore q c = s) (searchChunksByEmbedding engine chunks q k))
                  (filter (\<lambda>c. chunkScore q c = s) (filter hasEmbedding chunks))"
    by (rule search_ordered(2) [OF assms])
qed

theorem search_ranked_witness:
  "(0 :: int) \<le> 5 \<and>
   searchChunksByEmbedding keepOrder [soilChunk, riceChunk, bareChunk, rowChunk, paddyChunk]
     [Fin 1, Fin 0] 5 =
     [riceChunk, paddyChunk, soilChunk, rowChunk] \<and>
   list_all (\<lambda>c. embedding c \<noteq> None \<and> embedding c \<noteq> Some [])
     (searchChunksByEmbedding keepOrder [soilChunk, riceChunk, bareChunk, rowChunk, paddyChunk]
        [Fin 1, Fin 0] 5) \<and>
   sorted_wrt (\<lambda>c d. js_ge (chunkScore [Fin 1, Fin 0] c) (chunkScore [Fin 1, Fin 0] d))
     (searchChunksByEmbedding keepOrder [soilChunk, riceChunk, bareChunk, rowChunk, paddyChunk]
        [Fin 1, Fin 0] 5) \<and>
   prefix
     (filter (\<lambda>c. chunkScore [Fin 1, Fin 0] c = Fin 1)
        (searchChunksByEmbedding keepOrder [soilChunk, riceChunk, bareChunk, rowChunk, paddyChunk]
           [Fin 1, Fin 0] 5))
     (filter (\<lambda>c. chunkScore [Fin 1, Fin 0] c = Fin 1)
        (filter hasEmbedding [soilChunk, riceChunk, bareChunk, rowChunk, paddyChunk]))"
proof -
  let ?chunks = "[soilChunk, riceChunk, bareChunk, rowChunk, paddyChunk]"
  let ?q = "[Fin 1, Fin 0]"
  have k: "(0 :: int) \<le> 5" by simp
  have e: "\<forall>xs :: (Chunk \<times> jsnum) list. set (keepOrder xs) \<subseteq> set xs"
    by (simp add: keepOrder_def)
  note t = search_ranked [OF k, of keepOrder ?chunks ?q]
  from t e have "\<forall>c \<in> set (searchChunksByEmbedding keepOrder ?chunks ?q 5).
      embedding c \<noteq> None \<and> embedding c \<noteq> Some []"
    by blast
  then have 0: "list_all (\<lambda>c. embedding c \<noteq> None \<and> embedding c \<noteq> Some [])
                  (searchChunksByEmbedding keepOrder ?chunks ?q 5)"
    by (simp only: list_all_iff)
  from t sample_finite have
    1: "sorted_wrt (\<lambda>c d. js_ge (chunkScore ?q c) (chunkScore ?q d))
          (searchChunksByEmbedding keepOrder ?chunks ?q 5)"
    by blast
  from t sample_finite have 2: "prefix
     (filter (\<lambda>c. chunkScore ?q c = Fin 1) (searchChunksByEmbedding keepOrder ?chunks ?q 5))
     (filter (\<lambda>c. chunkScore ?q c = Fin 1) (filter hasEmbedding ?chunks))"
    by blast
  from k search_sample [of keepOrder] 0 1 2 show ?thesis by blast
qed

lemma sample_labels:
  "sourceOf soilChunk = ''rice.pdf''" "sourceOf riceChunk = ''rice.pdf''"
  "sourceOf rowChunk = ''CSV Dataset''" "sourceOf paddyChunk = ''note''"
  "sourceOf bareChunk = ''Unknown source''"
  by (simp_all add: sourceOf_def truthy_def fileNameOf_def typeOf_def soilChunk_def riceChunk_def
      rowChunk_def paddyChunk_def bareChunk_def)

lemma sample_sources:
  "extractSources [riceChunk, paddyChunk, rowChunk, soilChunk, bareChunk] =
     [''rice.pdf'', ''note'', ''CSV Dataset'', ''Unknown source'']"
  by (simp add: extractSources_def removeDuplicates_def indexOf_def sample_labels upt_rec)

lemma sample_reply: "postProcessResponse ''Answer: Keep the field flooded.'' = ''Keep the field flooded.''"
  by (simp add: postProcessResponse_def stripPrefix_def startsWith_def trim_def isWhiteSpace_def)

theorem sources_first_seen_witness:
  "extractSources [riceChunk, paddyChunk, rowChunk, soilChunk, bareChunk] =
     [''rice.pdf'', ''note'', ''CSV Dataset'', ''Unknown source''] \<and>
   distinct (extractSources [riceChunk, paddyChunk, rowChunk, soilChunk, bareChunk]) \<and>
   \<not> truthy (fileNameOf rowChunk) \<and> typeOf rowChunk = Some ''csv_row'' \<and>
   sourceOf rowChunk = ''CSV Dataset'' \<and>
   generateEmbedding indexedEnv wheatQuery = Inr [Fin 1, Fin 0] \<and>
   (\<exists>r. fst (handleRAGQuery indexedEnv wheatQuery ''google/gemma-2b-it'' ''english'') = Inr r \<and>
        answer r = ''Keep the field flooded.'' \<and>
        sources r = extractSources (searchChunksByEmbedding (engineOrder indexedEnv) (storedChunks indexedEnv) [Fin 1, Fin 0] 5))"
proof -
  note t = sources_first_seen [of "[riceChunk, paddyChunk, rowChunk, soilChunk, bareChunk]" rowChunk]
  have f: "\<not> truthy (fileNameOf rowChunk)" and ty: "typeOf rowChunk = Some ''csv_row''"
    by (simp_all add: truthy_def fileNameOf_def typeOf_def rowChunk_def)
  from t have d: "distinct (extractSources [riceChunk, paddyChunk, rowChunk, soilChunk, bareChunk])"
    by blast
  from t f ty have l: "sourceOf rowChunk = ''CSV Dataset''" by blast
  have e: "generateEmbedding indexedEnv wheatQuery = Inr [Fin 1, Fin 0]"
    by (simp add: indexedEnv_def)
  have s: "searchChunksByEmbedding (engineOrder indexedEnv) (storedChunks indexedEnv) [Fin 1, Fin 0] 5 =
             [riceChunk, paddyChunk, soilChunk, rowChunk]"
    using search_sample [of keepOrder] by (simp add: indexedEnv_def)
  have g: "generateResponse indexedEnv p ''google/gemma-2b-it'' = Inr ''Answer: Keep the field flooded.''" for p
    by (simp add: generateResponse_def indexedEnv_def)
  have "\<exists>r. fst (handleRAGQuery indexedEnv wheatQuery ''google/gemma-2b-it'' ''english'') = Inr r \<and>
             answer r = ''Keep the field flooded.''"
    using handleRAGQuery_retrieved [OF e s _ refl, of "''google/gemma-2b-it''" "''english''"]
    by (simp add: g sample_reply)
  then obtain r where r: "fst (handleRAGQuery indexedEnv wheatQuery ''google/gemma-2b-it'' ''english'') = Inr r"
    "answer r = ''Keep the field flooded.''" by blast
  from t e r(1) have "sources r = extractSources (searchChunksByEmbedding (engineOrder indexedEnv) (storedChunks indexedEnv) [Fin 1, Fin 0] 5)"
    by blast
  with sample_sources d f ty l e r show ?thesis by blast
qed

section \<open>chunkText\<close>

lemma dropWhile_all_iff: "(\<forall>x \<in> set (dropWhile P xs). P x) \<longleftrightarrow> (\<forall>x \<in> set xs. P x)"
proof
  assume a: "\<forall>x \<in> set (dropWhile P xs). P x"
  have "dropWhile P xs = []"
  proof (rule ccontr)
    assume n: "dropWhile P xs \<noteq> []"
    then have "\<not> P (hd (dropWhile P xs))" by (rule hd_dropWhile)
    moreover from n have "hd (dropWhile P xs) \<in> set (dropWhile P xs)" by simp
    ultimately show False using a by blast
  qed
  then show "\<forall>x \<in> set xs. P x" by (simp add: dropWhile_eq_Nil_conv)
next
  assume "\<forall>x \<in> set xs. P x"
  then show "\<forall>x \<in> set (dropWhile P xs). P x" by (auto dest: set_dropWhileD)
qed

lemma trim_empty_iff: "trim s = [] \<longleftrightarrow> (\<forall>c \<in> set s. isWhiteSpace c)"
proof -
  have "trim s = [] \<longleftrightarrow> (\<forall>c \<in> set (dropWhile isWhiteSpace s). isWhiteSpace c)"
    by (simp add: trim_def dropWhile_eq_Nil_conv)
  then show ?thesis by (simp only: dropWhile_all_iff)
qed

lemma filter_dropWhile_not:
  "filter (\<lambda>c. \<not> P c) (dropWhile P xs) = filter (\<lambda>c. \<not> P c) xs"
  by (induction xs) auto

lemma filter_takeWhile_same: "filter P (takeWhile P xs) = takeWhile P xs"
  by (induction xs) auto

lemma splitSentences_concat:
  "concat (splitSentences s) = filter (\<lambda>c. \<not> isTerminator c) s"
proof (induction s rule: splitSentences.induct)
  case (1 s)
  let ?piece = "takeWhile (\<lambda>c. \<not> isTerminator c) s"
  let ?rest = "dropWhile (\<lambda>c. \<not> isTerminator c) s"
  have "filter (\<lambda>c. \<not> isTerminator c) s = filter (\<lambda>c. \<not> isTerminator c) (?piece @ ?rest)"
    by simp
  also have "\<dots> = ?piece @ filter (\<lambda>c. \<not> isTerminator c) ?rest"
    by (simp only: filter_append filter_takeWhile_same)
  finally have whole: "filter (\<lambda>c. \<not> isTerminator c) s =
                       ?piece @ filter (\<lambda>c. \<not> isTerminator c) ?rest" .
  show ?case
  proof (cases "?rest = []")
    case True
    have "splitSentences s = [?piece]"
      by (subst splitSentences.simps) (simp only: Let_def True if_True simp_thms)
    moreover have "filter (\<lambda>c. \<not> isTerminator c) s = ?piece"
      by (simp only: whole True filter.simps append_Nil2)
    ultimately show ?thesis by simp
  next
    case False
    have sp: "splitSentences s = ?piece # splitSentences (dropWhile isTerminator (tl ?rest))"
      by (subst splitSentences.simps) (simp only: Let_def False if_False simp_thms)
    have ih: "concat (splitSentences (dropWhile isTerminator (tl ?rest))) =
              filter (\<lambda>c. \<not> isTerminator c) (dropWhile isTerminator (tl ?rest))"
      using "1.IH" [OF refl refl False] .
    from False obtain t ts where ts: "?rest = t # ts"
      by (meson neq_Nil_conv)
    from False have "\<not> \<not> isTerminator (hd ?rest)"
      by (rule hd_dropWhile)
    then have "isTerminator t" by (simp only: ts list.sel not_not)
    then have "filter (\<lambda>c. \<not> isTerminator c) (t # ts) = filter (\<lambda>c. \<not> isTerminator c) ts"
      by simp
    then have "filter (\<lambda>c. \<not> isTerminator c) ?rest =
               filter (\<lambda>c. \<not> isTerminator c) (tl ?rest)"
      by (simp only: ts list.sel)
    also have "\<dots> = filter (\<lambda>c. \<not> isTerminator c) (dropWhile isTerminator (tl ?rest))"
      by (simp only: filter_dropWhile_not)
    finally have "filter (\<lambda>c. \<not> isTerminator c) s =
               ?piece @ filter (\<lambda>c. \<not> isTerminator c) (dropWhile isTerminator (tl ?rest))"
      by (simp only: whole)
    then show ?thesis by (simp only: sp ih concat.simps)
  qed
qed

lemma splitSentences_total_length: "sum_list (map length (splitSentences s)) \<le> length s"
proof -
  have "sum_list (map length (splitSentences s)) = length (concat (splitSentences s))"
    by (simp add: length_concat)
  also have "\<dots> \<le> length s"
    by (simp add: splitSentences_concat)
  finally show ?thesis .
qed

lemma filter_total_length:
  "sum_list (map length (filter P xs)) \<le> sum_list (map length xs)"
  by (induction xs) auto

lemma sentencesOf_total_length: "sum_list (map length (sentencesOf text)) \<le> length text"
  unfolding sentencesOf_def
  using filter_total_length [of _ "splitSentences text"] splitSentences_total_length [of "text"]
  by (rule order_trans)

lemma sentencesOf_nonblank: "s \<in> set (sentencesOf text) \<Longrightarrow> \<exists>c \<in> set s. \<not> isWhiteSpace c"
  using trim_empty_iff [of s] by (auto simp: sentencesOf_def)

lemma sentencesOf_empty_iff:
  "sentencesOf text = [] \<longleftrightarrow> (\<forall>c \<in> set text. isWhiteSpace c \<or> isTerminator c)"
proof -
  have "sentencesOf text = [] \<longleftrightarrow> (\<forall>p \<in> set (splitSentences text). \<forall>c \<in> set p. isWhiteSpace c)"
    by (simp add: sentencesOf_def filter_empty_conv trim_empty_iff)
  also have "\<dots> \<longleftrightarrow> (\<forall>c \<in> set (concat (splitSentences text)). isWhiteSpace c)"
    by auto
  also have "\<dots> \<longleftrightarrow> (\<forall>c \<in> set text. isWhiteSpace c \<or> isTerminator c)"
    by (auto simp: splitSentences_concat)
  finally show ?thesis .
qed

lemma chunkLoop_packs:
  "currentLength + sum_list (map length ss) \<le> chunkSize \<Longrightarrow>
   chunkLoop meta chunkSize overlap ss (chunks, currentChunk, currentLength) =
     (chunks, currentChunk @ concat (map (\<lambda>s. s @ ''. '') ss),
      currentLength + sum_list (map length ss))"
proof (induction ss arbitrary: currentChunk currentLength)
  case Nil
  then show ?case by simp
next
  case (Cons s ss)
  from Cons.prems have fit: "\<not> currentLength + length s > chunkSize" by simp
  from Cons.prems have "(currentLength + length s) + sum_list (map length ss) \<le> chunkSize"
    by simp
  from Cons.IH [OF this] fit show ?case by (simp add: Let_def)
qed

lemma chunkText_short:
  assumes "length text \<le> chunkSize"
  shows "chunkText text meta chunkSize overlap =
     (if sentencesOf text = [] then []
      else [\<lparr>content = trim (concat (map (\<lambda>s. s @ ''. '') (sentencesOf text))),
             metadata = TextPiece meta 0
               (length (concat (map (\<lambda>s. s @ ''. '') (sentencesOf text))))\<rparr>])"
proof -
  let ?ss = "sentencesOf text"
  let ?buffer = "concat (map (\<lambda>s. s @ ''. '') ?ss)"
  have "0 + sum_list (map length ?ss) \<le> chunkSize"
    using sentencesOf_total_length [of "text"] assms by simp
  from chunkLoop_packs [OF this]
  have loop: "chunkLoop meta chunkSize overlap ?ss ([], [], 0) =
                ([], ?buffer, 0 + sum_list (map length ?ss))"
    by simp
  show ?thesis
  proof (cases "?ss = []")
    case True
    then show ?thesis by (simp add: chunkText_def trim_def)
  next
    case False
    then obtain s where s: "s \<in> set ?ss" by (cases ?ss) auto
    from sentencesOf_nonblank [OF s] obtain c where "c \<in> set s" "\<not> isWhiteSpace c" by blast
    with s have "\<exists>c \<in> set ?buffer. \<not> isWhiteSpace c" by auto
    then have "trim ?buffer \<noteq> []" by (simp add: trim_empty_iff)
    with False loop show ?thesis
      by (simp add: chunkText_def mkChunk_def)
  qed
qed

lemma hi_sentences: "sentencesOf ''Hi there! How are you?'' = [''Hi there'', '' How are you'']"
  by code_simp

theorem chunkText_short_counterexample:
  "chunkText ''...'' None defaultChunkSize defaultOverlap = [] \<and>
   chunkText ''Hi there! How are you?'' None defaultChunkSize defaultOverlap =
     [\<lparr>content = ''Hi there.  How are you.'', metadata = TextPiece None 0 24\<rparr>]"
  by code_simp

text \<open>
  C6, as the code has it. For an input shorter than the chunk size that holds at least
  one character that is neither white space nor a sentence terminator, \<open>chunkText\<close>
  returns exactly one chunk; its content is the trimmed concatenation of the input's
  non-blank sentences, each followed by a full stop and a space, not the input itself.
  For an input made of white space and terminators only it returns no chunk.
\<close>

theorem chunkText_short_input:
  assumes "length text < chunkSize"
  shows "((\<exists>c \<in> set text. \<not> isWhiteSpace c \<and> \<not> isTerminator c) \<longrightarrow>
            chunkText text meta chunkSize overlap =
              [\<lparr>content = trim (concat (map (\<lambda>s. s @ ''. '') (sentencesOf text))),
                metadata = TextPiece meta 0
                  (length (concat (map (\<lambda>s. s @ ''. '') (sentencesOf text))))\<rparr>]) \<and>
         ((\<forall>c \<in> set text. isWhiteSpace c \<or> isTerminator c) \<longrightarrow>
            chunkText text meta chunkSize overlap = [])"
proof -
  from assms have "length text \<le> chunkSize" by simp
  note c = chunkText_short [OF this, of meta overlap]
  show ?thesis
    using c sentencesOf_empty_iff [of "text"] by auto
qed

theorem chunkText_short_input_witness:
  "length ''Hi there! How are you?'' < defaultChunkSize \<and>
   chunkText ''Hi there! How are you?'' (Some TextFile) defaultChunkSize defaultOverlap =
     [\<lparr>content = ''Hi there.  How are you.'', metadata = TextPiece (Some TextFile) 0 24\<rparr>] \<and>
   length ''?!'' < defaultChunkSize \<and>
   chunkText ''?!'' (Some TextFile) defaultChunkSize defaultOverlap = []"
proof -
  have l: "length ''Hi there! How are you?'' < defaultChunkSize" "length ''?!'' < defaultChunkSize"
    by (simp_all add: defaultChunkSize_def)
  have h: "\<exists>c \<in> set ''Hi there! How are you?''. \<not> isWhiteSpace c \<and> \<not> isTerminator c"
    by (simp add: isWhiteSpace_def isTerminator_def)
  have b: "\<forall>c \<in> set ''?!''. isWhiteSpace c \<or> isTerminator c"
    by (simp add: isTerminator_def)
  from chunkText_short_input [OF l(1), of "Some TextFile" defaultOverlap] h
  have 1: "chunkText ''Hi there! How are you?'' (Some TextFile) defaultChunkSize defaultOverlap =
     [\<lparr>content = trim (concat (map (\<lambda>s. s @ ''. '') (sentencesOf ''Hi there! How are you?''))),
       metadata = TextPiece (Some TextFile) 0
         (length (concat (map (\<lambda>s. s @ ''. '') (sentencesOf ''Hi there! How are you?''))))\<rparr>]"
    by blast
  have t: "trim ''Hi there.  How are you. '' = ''Hi there.  How are you.''"
    by (simp add: trim_def isWhiteSpace_def)
  from chunkText_short_input [OF l(2), of "Some TextFile" defaultOverlap] b
  have 2: "chunkText ''?!'' (Some TextFile) defaultChunkSize defaultOverlap = []"
    by blast
  from 1 have "chunkText ''Hi there! How are you?'' (Some TextFile) defaultChunkSize defaultOverlap =
     [\<lparr>content = ''Hi there.  How are you.'', metadata = TextPiece (Some TextFile) 0 24\<rparr>]"
    by (simp add: hi_sentences t)
  with l 2 show ?thesis by blast
qed

section \<open>The overlap between consecutive chunks\<close>

lemma packed_snoc: "packed (g @ [s]) = packed g @ s @ ''. ''"
  by (simp add: packed_def)

lemma continued_snoc: "g \<noteq> [] \<Longrightarrow> continued overlap b (g @ [s]) = continued overlap b g @ s @ ''. ''"
  by (cases g) (simp_all add: continued_def packed_snoc)

lemma continued_single: "continued overlap b [s] = sliceFromEnd overlap b @ s"
  by (simp add: continued_def packed_def)

lemma buffersFrom_nonempty: "buffersFrom overlap b gs \<noteq> []"
  by (cases gs) simp_all

lemma buffersFrom_hd: "hd (buffersFrom overlap b gs) = b"
  by (cases gs) simp_all

lemma buffersFrom_snoc:
  "buffersFrom overlap b (gs @ [g]) =
     buffersFrom overlap b gs @ [continued overlap (last (buffersFrom overlap b gs)) g]"
  by (induction gs arbitrary: b) (simp_all add: buffersFrom_nonempty)

lemma buffersOf_snoc:
  "buffersOf overlap (gs @ [g]) =
     buffersOf overlap gs @
       [if gs = [] then packed g else continued overlap (last (buffersOf overlap gs)) g]"
  by (cases gs) (simp_all add: buffersOf_def buffersFrom_snoc)

lemma buffersOf_last_grow:
  assumes "g \<noteq> []"
  shows "last (buffersOf overlap (gs @ [g @ [s]])) = last (buffersOf overlap (gs @ [g])) @ s @ ''. ''"
  using assms by (simp add: buffersOf_snoc packed_snoc continued_snoc)

lemma buffersOf_last_new:
  "last (buffersOf overlap ((gs @ [g]) @ [[s]])) =
     sliceFromEnd overlap (last (buffersOf overlap (gs @ [g]))) @ s"
  using buffersOf_snoc [of overlap "gs @ [g]" "[s]"] by (simp add: continued_single)

lemma buffersOf_butlast: "buffersOf overlap (gs @ [g]) = buffersOf overlap gs @ [last (buffersOf overlap (gs @ [g]))]"
  by (simp add: buffersOf_snoc)

lemma chunksOf_length: "length (chunksOf meta bs) = length bs"
  by (simp add: chunksOf_def)

lemma chunksOf_snoc:
  "chunksOf meta (bs @ [b]) =
     chunksOf meta bs @ [\<lparr>content = trim b, metadata = TextPiece meta (length bs) (length b)\<rparr>]"
  by (simp add: chunksOf_def)

lemma chunksOf_push: "chunksOf meta bs @ [mkChunk meta (chunksOf meta bs) b] = chunksOf meta (bs @ [b])"
  by (simp add: chunksOf_snoc mkChunk_def chunksOf_length)

lemma nonblank_inside:
  assumes "\<exists>c \<in> set s. \<not> isWhiteSpace c"
  shows "trim (a @ s @ b) \<noteq> []"
  using assms by (auto simp: trim_empty_iff)

lemma buffersOf_last_nonblank:
  assumes "g \<noteq> []" and "\<forall>s \<in> set g. \<exists>c \<in> set s. \<not> isWhiteSpace c"
  shows "trim (last (buffersOf overlap (gs @ [g]))) \<noteq> []"
proof -
  from assms obtain s ss where g: "g = s # ss" and s: "\<exists>c \<in> set s. \<not> isWhiteSpace c"
    by (cases g) auto
  have "last (buffersOf overlap (gs @ [g])) =
          (if gs = [] then [] else sliceFromEnd overlap (last (buffersOf overlap gs))) @ s @
          (if gs = [] then ''. '' @ packed ss else packed ss)"
    by (simp add: buffersOf_snoc g packed_def continued_def)
  then show ?thesis
    using nonblank_inside [OF s] by simp
qed

lemma chunkLoop_buffers:
  assumes "\<forall>s \<in> set ss. \<exists>c \<in> set s. \<not> isWhiteSpace c"
    and "[] \<notin> set gs" and "g \<noteq> []" and "\<forall>s \<in> set g. \<exists>c \<in> set s. \<not> isWhiteSpace c"
  shows "\<exists>gs' g' n.
           concat gs' @ g' = concat gs @ g @ ss \<and> [] \<notin> set gs' \<and> g' \<noteq> [] \<and>
           (\<forall>s \<in> set g'. \<exists>c \<in> set s. \<not> isWhiteSpace c) \<and>
           chunkLoop meta chunkSize overlap ss
             (chunksOf meta (buffersOf overlap gs), last (buffersOf overlap (gs @ [g])),
              currentLength) =
             (chunksOf meta (buffersOf overlap gs'), last (buffersOf overlap (gs' @ [g'])), n)"
  using assms
proof (induction ss arbitrary: gs g currentLength)
  case Nil
  then show ?case by auto
next
  case (Cons s ss)
  let ?cur = "last (buffersOf overlap (gs @ [g]))"
  from Cons.prems(1) have rest: "\<forall>s \<in> set ss. \<exists>c \<in> set s. \<not> isWhiteSpace c"
    and s: "\<exists>c \<in> set s. \<not> isWhiteSpace c"
    by simp_all
  show ?case
  proof (cases "currentLength + length s > chunkSize \<and> length ?cur > 0")
    case True
    have step: "chunkLoop meta chunkSize overlap (s # ss)
                  (chunksOf meta (buffersOf overlap gs), ?cur, currentLength) =
                chunkLoop meta chunkSize overlap ss
                  (chunksOf meta (buffersOf overlap (gs @ [g])),
                   last (buffersOf overlap ((gs @ [g]) @ [[s]])),
                   length (sliceFromEnd overlap ?cur) + length s)"
      using True
      by (simp only: chunkLoop.simps Let_def simp_thms if_True chunksOf_push buffersOf_last_new
          buffersOf_butlast [symmetric])
    have "[] \<notin> set (gs @ [g])" using Cons.prems(2,3) by auto
    moreover have "[s] \<noteq> []" by simp
    moreover have "\<forall>t \<in> set [s]. \<exists>c \<in> set t. \<not> isWhiteSpace c" using s by simp
    ultimately obtain gs' g' n where
      r: "concat gs' @ g' = concat (gs @ [g]) @ [s] @ ss" "[] \<notin> set gs'" "g' \<noteq> []"
        "\<forall>s \<in> set g'. \<exists>c \<in> set s. \<not> isWhiteSpace c"
        "chunkLoop meta chunkSize overlap ss
           (chunksOf meta (buffersOf overlap (gs @ [g])),
            last (buffersOf overlap ((gs @ [g]) @ [[s]])),
            length (sliceFromEnd overlap ?cur) + length s) =
         (chunksOf meta (buffersOf overlap gs'), last (buffersOf overlap (gs' @ [g'])), n)"
      using Cons.IH [OF rest, of "gs @ [g]" "[s]" "length (sliceFromEnd overlap ?cur) + length s"]
      by blast
    from r(1) have "concat gs' @ g' = concat gs @ g @ s # ss" by simp
    with r(2-5) step show ?thesis by metis
  next
    case False
    have step: "chunkLoop meta chunkSize overlap (s # ss)
                  (chunksOf meta (buffersOf overlap gs), ?cur, currentLength) =
                chunkLoop meta chunkSize overlap ss
                  (chunksOf meta (buffersOf overlap gs),
                   last (buffersOf overlap (gs @ [g @ [s]])),
                   currentLength + length s)"
      using False
      by (simp only: chunkLoop.simps Let_def simp_thms if_False
          buffersOf_last_grow [OF Cons.prems(3)])
    have "g @ [s] \<noteq> []" by simp
    moreover have "\<forall>t \<in> set (g @ [s]). \<exists>c \<in> set t. \<not> isWhiteSpace c"
      using s Cons.prems(4) by auto
    ultimately obtain gs' g' n where
      r: "concat gs' @ g' = concat gs @ (g @ [s]) @ ss" "[] \<notin> set gs'" "g' \<noteq> []"
        "\<forall>s \<in> set g'. \<exists>c \<in> set s. \<not> isWhiteSpace c"
        "chunkLoop meta chunkSize overlap ss
           (chunksOf meta (buffersOf overlap gs), last (buffersOf overlap (gs @ [g @ [s]])),
            currentLength + length s) =
         (chunksOf meta (buffersOf overlap gs'), last (buffersOf overlap (gs' @ [g'])), n)"
      using Cons.IH [OF rest Cons.prems(2), of "g @ [s]" "currentLength + length s"]
      by blast
    from r(1) have "concat gs' @ g' = concat gs @ g @ s # ss" by simp
    with r(2-5) step show ?thesis by metis
  qed
qed

lemma buffers_linked:
  "successively (\<lambda>b b'. prefix (sliceFromEnd overlap b) b') (buffersFrom overlap b gs)"
proof (induction gs arbitrary: b)
  case Nil
  then show ?case by simp
next
  case (Cons g gs)
  have "prefix (sliceFromEnd overlap b) (continued overlap b g)"
    by (cases g) (simp_all add: continued_def)
  with Cons [of "continued overlap b g"] show ?case
    by (simp add: successively_Cons buffersFrom_hd)
qed

lemma buffersOf_linked:
  "successively (\<lambda>b b'. prefix (sliceFromEnd overlap b) b') (buffersOf overlap gs)"
  by (cases gs) (simp_all add: buffersOf_def buffers_linked)

lemma chunkText_buffers:
  "\<exists>groups. concat groups = sentencesOf text \<and> [] \<notin> set groups \<and>
     chunkText text meta chunkSize overlap = chunksOf meta (buffersOf overlap groups)"
proof (cases "sentencesOf text")
  case Nil
  then have "chunkText text meta chunkSize overlap = chunksOf meta (buffersOf overlap [])"
    by (simp add: chunkText_def trim_def chunksOf_def buffersOf_def)
  with Nil show ?thesis by (intro exI [of _ "[]"]) simp
next
  case (Cons s ss)
  have nb: "\<forall>t \<in> set (s # ss). \<exists>c \<in> set t. \<not> isWhiteSpace c"
    using sentencesOf_nonblank [of _ "text"] Cons by auto
  have first: "chunkLoop meta chunkSize overlap (s # ss) ([], [], 0) =
               chunkLoop meta chunkSize overlap ss
                 (chunksOf meta (buffersOf overlap []), last (buffersOf overlap ([] @ [[s]])),
                  length s)"
    by (simp add: chunksOf_def buffersOf_def packed_def)
  from nb have "\<forall>t \<in> set ss. \<exists>c \<in> set t. \<not> isWhiteSpace c"
    and "\<forall>t \<in> set [s]. \<exists>c \<in> set t. \<not> isWhiteSpace c"
    by simp_all
  from chunkLoop_buffers [OF this(1) _ _ this(2), of "[]" meta chunkSize overlap "length s"]
  obtain gs' g' n where
    r: "concat gs' @ g' = concat [] @ [s] @ ss" "[] \<notin> set gs'" "g' \<noteq> []"
      "\<forall>s \<in> set g'. \<exists>c \<in> set s. \<not> isWhiteSpace c"
      "chunkLoop meta chunkSize overlap ss
         (chunksOf meta (buffersOf overlap []), last (buffersOf overlap ([] @ [[s]])), length s) =
       (chunksOf meta (buffersOf overlap gs'), last (buffersOf overlap (gs' @ [g'])), n)"
    by auto
  have run: "chunkLoop meta chunkSize overlap (sentencesOf text) ([], [], 0) =
       (chunksOf meta (buffersOf overlap gs'), last (buffersOf overlap (gs' @ [g'])), n)"
    by (simp only: Cons first r(5))
  have "trim (last (buffersOf overlap (gs' @ [g']))) \<noteq> []"
    by (rule buffersOf_last_nonblank [OF r(3) r(4)])
  then have "chunkText text meta chunkSize overlap =
               chunksOf meta (buffersOf overlap gs') @
                 [mkChunk meta (chunksOf meta (buffersOf overlap gs'))
                    (last (buffersOf overlap (gs' @ [g'])))]"
    by (simp add: chunkText_def run)
  then have "chunkText text meta chunkSize overlap = chunksOf meta (buffersOf overlap (gs' @ [g']))"
    by (simp only: chunksOf_push buffersOf_butlast [symmetric])
  moreover have "concat (gs' @ [g']) = sentencesOf text" using r(1) Cons by simp
  moreover have "[] \<notin> set (gs' @ [g'])" using r(2,3) by auto
  ultimately show ?thesis by blast
qed

lemma overlap_sample:
  "map content
     (chunkText (replicate 600 (CHR ''a'') @ ''.'' @ replicate 600 (CHR ''b'')) None
        defaultChunkSize defaultOverlap) =
     [replicate 600 (CHR ''a'') @ ''.'',
      replicate 198 (CHR ''a'') @ ''. '' @ replicate 600 (CHR ''b'')]"
  by code_simp

lemma overlap_small_sample:
  "chunkText ''aaaa. bbbb'' None 6 3 =
     [\<lparr>content = ''aaaa.'', metadata = TextPiece None 0 6\<rparr>,
      \<lparr>content = ''a.  bbbb'', metadata = TextPiece None 1 8\<rparr>] \<and>
   chunkText ''aaaa. bbbb'' None 6 3 =
     chunksOf None (buffersOf 3 [[''aaaa''], ['' bbbb'']])"
  by code_simp

lemma overlap_sample_mismatch:
  "\<not> prefix (sliceFromEnd defaultOverlap (replicate 600 (CHR ''a'') @ ''.''))
       (replicate 198 (CHR ''a'') @ ''. '' @ replicate 600 (CHR ''b''))"
  by code_simp

theorem chunkText_overlap_counterexample:
  "map content
     (chunkText (replicate 600 (CHR ''a'') @ ''.'' @ replicate 600 (CHR ''b'')) None
        defaultChunkSize defaultOverlap) =
     [replicate 600 (CHR ''a'') @ ''.'',
      replicate 198 (CHR ''a'') @ ''. '' @ replicate 600 (CHR ''b'')] \<and>
   \<not> prefix (sliceFromEnd defaultOverlap (replicate 600 (CHR ''a'') @ ''.''))
       (replicate 198 (CHR ''a'') @ ''. '' @ replicate 600 (CHR ''b''))"
  using overlap_sample overlap_sample_mismatch by (rule conjI)

text \<open>
  C7, as the code has it. The chunks are cut from buffers: the non-blank sentences are
  packed, in order, into non-empty groups; the first buffer is the first group with
  \<open>". "\<close> after each sentence; every later buffer is the trailing \<open>overlap\<close> characters
  of the buffer before it (all of it when \<open>overlap\<close> is 0), then the first sentence of its
  group as it is, then the other sentences of the group with \<open>". "\<close> after each. The
  chunk of index \<open>i\<close> has as content the trim of buffer \<open>i\<close> and records \<open>i\<close> and the length
  of the buffer. So each buffer after the first begins with the overlap of the buffer
  before it, untrimmed; the overlap is not cut from the predecessor's content.
\<close>

theorem chunkText_overlap:
  "\<exists>groups. concat groups = sentencesOf text \<and> [] \<notin> set groups \<and>
     chunkText text meta chunkSize overlap = chunksOf meta (buffersOf overlap groups) \<and>
     successively (\<lambda>b b'. prefix (sliceFromEnd overlap b) b') (buffersOf overlap groups)"
  using chunkText_buffers [of "text" meta chunkSize overlap] buffersOf_linked [of overlap]
  by blast

section \<open>The computation on the rice row\<close>

lemma rice_crop:
  "find (\<lambda>c. includes_str ''what is the total rice production in punjab from 2020 to 2022?'' c) crops =
     Some ''rice''"
  by (simp add: crops_def)

lemma rice_state:
  "find (\<lambda>s. includes_str ''what is the total rice production in punjab from 2020 to 2022?'' s) states =
     Some ''punjab''"
  by (simp add: states_def)

lemma rice_years: "extractYears riceQuery = [2020, 2022]"
  by (simp add: riceQuery_def extractYears_def isDigit_def digitsVal_def digitVal_def)

lemma rice_row_matches: "rowMatches ''rice'' (Some ''punjab'') riceRow"
  by (simp add: rowMatches_def riceRow_def toLowerCase_def lowerChar_def char_of_eq_iff)

lemma round64_hundred: "round64 100 = Fin 100"
  using round64_int [of 100] by simp

lemma rice_values: "collectValues [2020, 2022] [riceRow] = [Fin 100]"
  by (simp add: collectValues_def riceRow_def digitChar_def parseFloat_def isWhiteSpace_def
      isDigit_def digitsVal_def digitVal_def exponentPart_def Let_def round64_hundred)

lemma rice_range: "yearRangeText [2020, 2022] = ''2020-2022''"
  by (simp add: yearRangeText_def digitChar_def)

lemma rice_names: "capitalize ''rice'' = ''Rice''" "capitalize ''punjab'' = ''Punjab''"
  by (simp_all add: capitalize_def upperChar_def char_of_eq_iff)

lemma rice_result:
  "performAgriculturalComputation toString riceQuery [riceRow] =
     ''Computation Results for Rice in Punjab (2020-2022):'' @ newline @
     ''Total: 100.00'' @ newline @
     ''Average: 100.00'' @ newline @
     ''Data points: 1''"
  unfolding performAgriculturalComputation_def Let_def riceQuery_lower rice_crop rice_state rice_years
  by (simp add: rice_row_matches rice_values round64_hundred fixedAbs_def fixed2_def digitChar_def
      rice_range rice_names)

text \<open>
  C2, as the code has it. The query names the years 2020 and 2022, so of the row's columns
  only the one called 2020 is read: the result reports total 100.00, average 100.00, one
  data point, and the year range 2020-2022.
\<close>

theorem rice_computation:
  "performAgriculturalComputation toString riceQuery [riceRow] =
     ''Computation Results for Rice in Punjab (2020-2022):'' @ newline @
     ''Total: 100.00'' @ newline @
     ''Average: 100.00'' @ newline @
     ''Data points: 1''"
  by (rule rice_result)

theorem rice_computation_counterexample:
  "\<not> includes_str (performAgriculturalComputation plainDigits riceQuery [riceRow]) ''Total: 220.00'' \<and>
   \<not> includes_str (performAgriculturalComputation plainDigits riceQuery [riceRow]) ''Average: 110.00'' \<and>
   \<not> includes_str (performAgriculturalComputation plainDigits riceQuery [riceRow]) ''Data points: 2''"
  by (simp add: rice_result newline_def)

subsection \<open>A parsed value that is not a double\<close>

text \<open>
  The text \<open>1.005\<close> is read as the double just below it, which \<open>toFixed(2)\<close> prints as
  \<open>1.00\<close>.
\<close>

lemma round64_parsed: "round64 (201 / 200) = Fin (1131529406376837 / 1125899906842624)"
proof -
  have a: "\<bar>(201 / 200 :: real) / 2 powi (0 - 52) - of_int 4526117625507348\<bar> < 1 / 2"
    by (simp add: power_int_minus abs_less_iff)
  have "round64 (201 / 200) = Fin (of_int 4526117625507348 * 2 powi (0 - 52))"
    by (intro round64_nearest [OF _ _ _ _ a]) (simp_all add: abs_less_iff)
  then show ?thesis by (simp add: power_int_minus)
qed

lemma parseFloat_sample: "parseFloat ''1.005'' = Fin (1131529406376837 / 1125899906842624)"
  by (simp add: parseFloat_def isWhiteSpace_def isDigit_def digitsVal_def digitVal_def
      exponentPart_def Let_def round64_parsed)

lemma toFixed2_sample: "toFixed2 toString (parseFloat ''1.005'') = ''1.00''"
  by (simp add: parseFloat_sample fixedAbs_def fixed2_def digitChar_def)

end
